theory Spec2Isabelle
  imports Main "HOL-Library.Multiset"
begin

section \<open>Data model\<close>

text \<open>
  Identifiers are the 24-digit hexadecimal strings that the controllers and the socket
  service handle (\<open>req.user.id\<close>, \<open>socket.userId\<close>, \<open>partnerId\<close>, \<open>messageId\<close>);
  a stored \<open>ObjectId\<close> is represented by its hexadecimal form. Dates are milliseconds
  since the epoch. Strings are lists of characters and \<open>length\<close> stands for the
  JavaScript \<open>.length\<close>.
\<close>

type_synonym date = int

datatype UserRole = USER | TRAINER

record user =
  u_id :: string
  role :: UserRole
  trainerId :: "string option"
  firstName :: string
  lastName :: string
  profilePicture :: "string option"
  isActive :: bool

text \<open>The fields of \<open>chatMessageSchema\<close> together with \<open>_id\<close> and the two timestamps
  \<open>createdAt\<close> and \<open>updatedAt\<close> that \<open>timestamps: true\<close> adds to the schema.\<close>

record chatMessage =
  m_id :: string
  senderId :: string
  receiverId :: string
  message :: string
  messageType :: string
  attachments :: "string list"
  isRead :: bool
  readAt :: "date option"
  createdAt :: date
  updatedAt :: date

datatype error = ValidationError | HookError string

section \<open>ChatMessage model: validation and save\<close>

text \<open>\<open>String.prototype.trim\<close> on the characters representable here: TAB, LF, VT, FF, CR,
  space and the no-break space.\<close>

definition isWhiteSpace :: "char \<Rightarrow> bool" where
  "isWhiteSpace c = (c \<in> {CHR 0x09, CHR 0x0A, CHR 0x0B, CHR 0x0C, CHR 0x0D, CHR 0x20, CHR 0xA0})"

definition trim :: "string \<Rightarrow> string" where
  "trim s = rev (dropWhile isWhiteSpace (rev (dropWhile isWhiteSpace s)))"

text \<open>The attachment validator \<open>/^https?:\/\/.+/.test(value)\<close>: the scheme, then at least
  one character that is not a line terminator.\<close>

definition afterScheme :: "string \<Rightarrow> string option" where
  "afterScheme v =
     (if take 7 v = ''http://'' then Some (drop 7 v)
      else if take 8 v = ''https://'' then Some (drop 8 v)
      else None)"

definition isValidAttachment :: "string \<Rightarrow> bool" where
  "isValidAttachment v =
     (case afterScheme v of
        None \<Rightarrow> False
      | Some r \<Rightarrow> (case r of [] \<Rightarrow> False | c # _ \<Rightarrow> c \<noteq> CHR 0x0A \<and> c \<noteq> CHR 0x0D))"

text \<open>\<open>new ChatMessage({senderId, receiverId, message, messageType, attachments})\<close>:
  the \<open>trim: true\<close> setter is applied to \<open>message\<close>, \<open>isRead\<close> and \<open>readAt\<close> take their
  schema defaults, and \<open>timestamps: true\<close> stamps \<open>createdAt\<close> and \<open>updatedAt\<close> with the
  time of the save that follows the construction immediately at both call sites.\<close>

definition new_ChatMessage ::
  "date \<Rightarrow> string \<Rightarrow> string \<Rightarrow> string \<Rightarrow> string \<Rightarrow> string \<Rightarrow> string list \<Rightarrow> chatMessage" where
  "new_ChatMessage now newId sender receiver msg mtype atts =
     \<lparr> m_id = newId, senderId = sender, receiverId = receiver, message = trim msg,
       messageType = mtype, attachments = atts, isRead = False, readAt = None,
       createdAt = now, updatedAt = now \<rparr>"

text \<open>The schema validators that run before the \<open>pre('save')\<close> hooks: \<open>message\<close> is
  \<open>required\<close> (an empty string fails the required validator of a String path) and has
  \<open>maxlength\<close> 2000, \<open>messageType\<close> is one of the enum, every attachment passes its
  validator.\<close>

definition validateSchema :: "chatMessage \<Rightarrow> bool" where
  "validateSchema m =
     (message m \<noteq> [] \<and> length (message m) \<le> 2000 \<and>
      messageType m \<in> {''text'', ''image'', ''file''} \<and>
      list_all isValidAttachment (attachments m))"

text \<open>First \<open>pre('save')\<close> hook: content validation by type, and no self-messaging.\<close>

definition preSaveContent :: "chatMessage \<Rightarrow> string option" where
  "preSaveContent m =
     (if messageType m = ''text'' \<and> (message m = [] \<or> length (trim (message m)) = 0)
        then Some ''Los mensajes de texto deben tener contenido''
      else if (messageType m = ''image'' \<or> messageType m = ''file'') \<and> length (attachments m) = 0
        then Some ''Los mensajes de imagen o archivo deben tener adjuntos''
      else if senderId m = receiverId m
        then Some ''No puedes enviarte mensajes a ti mismo''
      else None)"

text \<open>Second \<open>pre('save')\<close> hook; the first argument is \<open>this.isModified('isRead')\<close>.\<close>

definition preSaveReadAt :: "bool \<Rightarrow> date \<Rightarrow> chatMessage \<Rightarrow> chatMessage" where
  "preSaveReadAt isReadModified now m =
     (if isReadModified \<and> isRead m \<and> readAt m = None then m\<lparr>readAt := Some now\<rparr> else m)"

text \<open>\<open>await newMessage.save()\<close> on a freshly constructed document: validation, the two
  hooks, then the insert at the end of the collection. The result is the error thrown,
  or the new collection and the saved document.\<close>

definition save ::
  "date \<Rightarrow> chatMessage list \<Rightarrow> chatMessage \<Rightarrow> error + (chatMessage list \<times> chatMessage)" where
  "save now ms doc =
     (if \<not> validateSchema doc then Inl ValidationError
      else case preSaveContent doc of
             Some e \<Rightarrow> Inl (HookError e)
           | None \<Rightarrow> (let d = preSaveReadAt False now doc in Inr (ms @ [d], d)))"

text \<open>The inputs that the save of a new document refuses, collected from the schema
  validators and the first \<open>pre('save')\<close> hook: the body is empty or longer than 2000
  after trimming, the type is not in the enum, an attachment is not an http(s) URL, an
  image or file message has no attachment, or sender and receiver coincide.\<close>

definition violatesConstraints :: "string \<Rightarrow> string \<Rightarrow> string \<Rightarrow> string \<Rightarrow> string list \<Rightarrow> bool" where
  "violatesConstraints sender receiver msg mtype atts =
     (trim msg = [] \<or> length (trim msg) > 2000 \<or>
      mtype \<notin> {''text'', ''image'', ''file''} \<or>
      \<not> list_all isValidAttachment atts \<or>
      ((mtype = ''image'' \<or> mtype = ''file'') \<and> atts = []) \<or>
      sender = receiver)"

section \<open>ChatMessage model: queries and updates\<close>

definition findById :: "chatMessage list \<Rightarrow> string \<Rightarrow> chatMessage option" where
  "findById ms i = List.find (\<lambda>m. m_id m = i) ms"

fun findByIdAndDelete :: "chatMessage list \<Rightarrow> string \<Rightarrow> chatMessage list" where
  "findByIdAndDelete [] i = []"
| "findByIdAndDelete (m # ms) i = (if m_id m = i then ms else m # findByIdAndDelete ms i)"

text \<open>The filter \<open>{senderId, receiverId, isRead: false}\<close> of the read-marking update.\<close>

definition unreadFrom :: "string \<Rightarrow> string \<Rightarrow> chatMessage \<Rightarrow> bool" where
  "unreadFrom sender receiver m = (senderId m = sender \<and> receiverId m = receiver \<and> isRead m = False)"

text \<open>\<open>updateMany(filter, {$set: {isRead: true, readAt: new Date()}})\<close>; the second
  component is \<open>result.modifiedCount\<close>. \<open>now\<close> is the \<open>new Date()\<close> of the caller; on the
  \<open>timestamps: true\<close> schema the update also sets \<open>updatedAt\<close> of every document it
  modifies, to the time \<open>stamp\<close> at which the update is executed.\<close>

definition ChatMessage_markAsRead ::
  "string \<Rightarrow> string \<Rightarrow> date \<Rightarrow> date \<Rightarrow> chatMessage list \<Rightarrow> chatMessage list \<times> nat" where
  "ChatMessage_markAsRead sender receiver now stamp ms =
     (map (\<lambda>m. if unreadFrom sender receiver m
               then m\<lparr>isRead := True, readAt := Some now, updatedAt := stamp\<rparr> else m) ms,
      length (filter (unreadFrom sender receiver) ms))"

text \<open>The \<open>$or\<close> filter selecting the conversation of a pair.\<close>

definition inConversation :: "string \<Rightarrow> string \<Rightarrow> chatMessage \<Rightarrow> bool" where
  "inConversation a b m =
     ((senderId m = a \<and> receiverId m = b) \<or> (senderId m = b \<and> receiverId m = a))"


text \<open>One store sort: the stable sort on \<open>createdAt\<close> descending, which keeps documents of
  equal \<open>createdAt\<close> in the order of the collection. It is the sort of the aggregation
  below and of the examples.\<close>

definition sortCreatedAtDesc :: "chatMessage list \<Rightarrow> chatMessage list" where
  "sortCreatedAtDesc ms = sort_key (\<lambda>m. - createdAt m) ms"

text \<open>\<open>.limit(n)\<close>: the store takes a limit of 0 as no limit.\<close>

definition applyLimit :: "nat \<Rightarrow> 'a list \<Rightarrow> 'a list" where
  "applyLimit limit xs = (if limit = 0 then xs else take limit xs)"

text \<open>The static \<open>findConversation\<close> for non-negative \<open>limit\<close> and \<open>skip\<close>; \<open>skip\<close> applies
  before \<open>limit\<close> whatever the order of the two calls on the query.\<close>

definition findConversation ::
  "(chatMessage list \<Rightarrow> chatMessage list) \<Rightarrow> chatMessage list \<Rightarrow> string \<Rightarrow> string \<Rightarrow> nat \<Rightarrow> nat
     \<Rightarrow> chatMessage list" where
  "findConversation storeSort ms userId1 userId2 limit skip =
     applyLimit limit (drop skip (storeSort (filter (inConversation userId1 userId2) ms)))"

text \<open>The instance method \<open>markAsRead\<close>, called on the stored document with the given id:
  an unread document gets \<open>isRead\<close> and \<open>readAt\<close> and is saved (validation and hooks run
  again, the save stamps \<open>updatedAt\<close> with its time \<open>stamp\<close>, then the document with that
  id is updated); a read one is left alone.\<close>

fun updateOneById :: "chatMessage list \<Rightarrow> string \<Rightarrow> chatMessage \<Rightarrow> chatMessage list" where
  "updateOneById [] i d = []"
| "updateOneById (m # ms) i d = (if m_id m = i then d # ms else m # updateOneById ms i d)"

definition doc_markAsRead ::
  "string \<Rightarrow> date \<Rightarrow> date \<Rightarrow> chatMessage list \<Rightarrow> chatMessage list" where
  "doc_markAsRead i now stamp ms =
     (case findById ms i of
        None \<Rightarrow> ms
      | Some m \<Rightarrow>
          if \<not> isRead m then
            (let m' = m\<lparr>isRead := True, readAt := Some now\<rparr> in
             if validateSchema m' \<and> preSaveContent m' = None
             then updateOneById ms i ((preSaveReadAt True stamp m')\<lparr>updatedAt := stamp\<rparr>)
             else ms)
          else ms)"

section \<open>Chat controller\<close>

record pagination =
  pg_page :: nat
  pg_limit :: nat
  pg_total :: nat
  pg_pages :: "nat option"
  pg_hasNext :: bool
  pg_hasPrev :: bool

record conversation =
  partnerId :: string
  partnerName :: string
  partnerProfilePicture :: "string option"
  partnerRole :: UserRole
  lastMessage :: string
  lastMessageType :: string
  lastMessageTime :: date
  unreadCount :: nat
  isLastMessageFromMe :: bool

text \<open>A response is the HTTP status and the JSON body; a failure body carries the
  \<open>error\<close> code. The display-only enrichments computed from the clock
  (\<open>ageInMinutes\<close>, \<open>formattedTime\<close>, ...) are left out of the bodies; \<open>isFromMe\<close> is kept.\<close>

datatype body =
    Failure string
  | MessagesBody "(chatMessage \<times> bool) list" pagination
  | MarkedBody nat string
  | DeletedBody string
  | ConversationsBody "conversation list"

type_synonym response = "nat \<times> body"

definition findUserById :: "user list \<Rightarrow> string \<Rightarrow> user option" where
  "findUserById us i = List.find (\<lambda>u. u_id u = i) us"

text \<open>\<open>Math.ceil(total / limit)\<close>; for \<open>limit = 0\<close> the quotient is \<open>Infinity\<close> or \<open>NaN\<close>,
  which is no number of pages (\<open>null\<close> in the JSON body), and \<open>page < Infinity\<close> holds
  while \<open>page < NaN\<close> does not.\<close>

definition ceilDiv :: "nat \<Rightarrow> nat \<Rightarrow> nat" where
  "ceilDiv n limit = (n + limit - 1) div limit"

definition pagesOf :: "nat \<Rightarrow> nat \<Rightarrow> nat option" where
  "pagesOf n limit = (if limit = 0 then None else Some (ceilDiv n limit))"

definition hasNextPage :: "nat \<Rightarrow> nat \<Rightarrow> nat \<Rightarrow> bool" where
  "hasNextPage page n limit = (if limit = 0 then n > 0 else page < ceilDiv n limit)"

text \<open>\<open>getMessages\<close>: \<open>req.user\<close> is the authenticated user's id if any. The route lets
  through only \<open>page \<ge> 1\<close> and \<open>1 \<le> limit \<le> 100\<close> (\<open>messagesQuerySchema\<close>); the
  controller itself does not check them: with \<open>page = 0\<close> and a positive limit it sends
  the negative \<open>skip = -limit\<close>, which the store refuses, so the \<open>catch\<close> answers 500
  before any update, and \<open>limit = 0\<close> is no limit. The page is read first, then the
  partner's unread messages are marked read (\<open>now\<close> is the controller's \<open>new Date()\<close>,
  \<open>stamp\<close> the time of the update), then the page is enriched:
  \<open>message.senderId._id\<close> throws on a sender that \<open>populate\<close> did not find, which the
  \<open>catch\<close> turns into a 500 after the update has happened.\<close>

definition getMessages ::
  "(chatMessage list \<Rightarrow> chatMessage list) \<Rightarrow> string option \<Rightarrow> string \<Rightarrow> nat \<Rightarrow> nat \<Rightarrow> date \<Rightarrow> date
     \<Rightarrow> user list \<Rightarrow> chatMessage list \<Rightarrow> response \<times> chatMessage list" where
  "getMessages storeSort reqUser partner page limit now stamp us ms =
     (case reqUser of
        None \<Rightarrow> ((401, Failure ''NOT_AUTHENTICATED''), ms)
      | Some currentUserId \<Rightarrow>
          if page = 0 \<and> limit > 0 then ((500, Failure ''INTERNAL_SERVER_ERROR''), ms)
          else
          (let skip = (page - 1) * limit;
               messages = applyLimit limit (drop skip
                            (storeSort (filter (inConversation currentUserId partner) ms)));
               totalCount = length (filter (inConversation currentUserId partner) ms);
               ms' = fst (ChatMessage_markAsRead partner currentUserId now stamp ms)
           in if list_all (\<lambda>m. findUserById us (senderId m) \<noteq> None) messages
              then ((200, MessagesBody
                            (rev (map (\<lambda>m. (m, senderId m = currentUserId)) messages))
                            \<lparr> pg_page = page, pg_limit = limit, pg_total = totalCount,
                              pg_pages = pagesOf totalCount limit,
                              pg_hasNext = hasNextPage page totalCount limit,
                              pg_hasPrev = (page > 1) \<rparr>), ms')
              else ((500, Failure ''INTERNAL_SERVER_ERROR''), ms')))"

definition markAsRead ::
  "string option \<Rightarrow> string \<Rightarrow> date \<Rightarrow> date \<Rightarrow> chatMessage list \<Rightarrow> response \<times> chatMessage list" where
  "markAsRead reqUser partner now stamp ms =
     (case reqUser of
        None \<Rightarrow> ((401, Failure ''NOT_AUTHENTICATED''), ms)
      | Some currentUserId \<Rightarrow>
          (let result = ChatMessage_markAsRead partner currentUserId now stamp ms
           in ((200, MarkedBody (snd result) partner), fst result)))"

definition deleteMessage ::
  "string option \<Rightarrow> string \<Rightarrow> chatMessage list \<Rightarrow> response \<times> chatMessage list" where
  "deleteMessage reqUser messageId ms =
     (case reqUser of
        None \<Rightarrow> ((401, Failure ''NOT_AUTHENTICATED''), ms)
      | Some currentUserId \<Rightarrow>
          (case findById ms messageId of
             None \<Rightarrow> ((404, Failure ''MESSAGE_NOT_FOUND''), ms)
           | Some m \<Rightarrow>
               if senderId m \<noteq> currentUserId
               then ((403, Failure ''INSUFFICIENT_PERMISSIONS''), ms)
               else ((200, DeletedBody messageId), findByIdAndDelete ms messageId)))"

subsection \<open>The aggregation of \<open>getConversations\<close>\<close>

text \<open>
  An aggregation pipeline is sent to the store as written: unlike the filters of
  \<open>find\<close>, \<open>updateMany\<close> and \<open>countDocuments\<close>, its stages are not cast to the schema.
  The stored \<open>senderId\<close> and \<open>receiverId\<close> are ObjectIds (\<open>Schema.Types.ObjectId\<close>),
  \<open>req.user.id\<close> is the string \<open>user._id.toString()\<close>, and \<open>$eq\<close> compares values of
  the store's types, so the values that the pipeline compares carry their type.
\<close>

datatype bson = ObjectIdValue string | StringValue string

text \<open>\<open>$match\<close> with the \<open>$or\<close> of \<open>senderId\<close> and \<open>receiverId\<close>.\<close>

definition matchStage :: "bson \<Rightarrow> chatMessage list \<Rightarrow> chatMessage list" where
  "matchStage v ms =
     filter (\<lambda>m. ObjectIdValue (senderId m) = v \<or> ObjectIdValue (receiverId m) = v) ms"

text \<open>\<open>$addFields\<close>: the \<open>partnerId\<close> of a document.\<close>

definition partnerOf :: "bson \<Rightarrow> chatMessage \<Rightarrow> string" where
  "partnerOf v m = (if ObjectIdValue (senderId m) = v then receiverId m else senderId m)"

text \<open>The \<open>$cond\<close> summed by \<open>unreadCount\<close>.\<close>

definition countsUnread :: "bson \<Rightarrow> chatMessage \<Rightarrow> bool" where
  "countsUnread v m = (ObjectIdValue (receiverId m) = v \<and> isRead m = False)"

text \<open>\<open>$group\<close> by \<open>partnerId\<close> over the sorted documents: \<open>$first\<close> is the first document
  of the group, \<open>unreadCount\<close> sums over the group.\<close>

fun groupStage :: "bson \<Rightarrow> chatMessage list \<Rightarrow> (string \<times> chatMessage \<times> nat) list" where
  "groupStage v [] = []"
| "groupStage v (m # ms) =
     (partnerOf v m, m,
        length (filter (\<lambda>d. partnerOf v d = partnerOf v m \<and> countsUnread v d) (m # ms)))
     # groupStage v (filter (\<lambda>d. partnerOf v d \<noteq> partnerOf v m) ms)"

text \<open>\<open>$lookup\<close> in \<open>users\<close> followed by \<open>$unwind\<close>: one output per matching user, none
  when no user has the partner's id. Then \<open>$project\<close>.\<close>

definition lookupUnwindProject ::
  "bson \<Rightarrow> user list \<Rightarrow> (string \<times> chatMessage \<times> nat) \<Rightarrow> conversation list" where
  "lookupUnwindProject v us g =
     (case g of (k, lastM, n) \<Rightarrow>
        map (\<lambda>u. \<lparr> partnerId = k,
                   partnerName = firstName u @ '' '' @ lastName u,
                   partnerProfilePicture = profilePicture u,
                   partnerRole = role u,
                   lastMessage = message lastM,
                   lastMessageType = messageType lastM,
                   lastMessageTime = createdAt lastM,
                   unreadCount = n,
                   isLastMessageFromMe = (ObjectIdValue (senderId lastM) = v) \<rparr>)
            (filter (\<lambda>u. u_id u = k) us))"

definition conversationsPipeline ::
  "bson \<Rightarrow> nat \<Rightarrow> user list \<Rightarrow> chatMessage list \<Rightarrow> conversation list" where
  "conversationsPipeline v limit us ms =
     take limit
       (sort_key (\<lambda>c. - lastMessageTime c)
          (concat (map (lookupUnwindProject v us)
             (groupStage v (sortCreatedAtDesc (matchStage v ms))))))"

definition getConversations ::
  "string option \<Rightarrow> nat \<Rightarrow> user list \<Rightarrow> chatMessage list \<Rightarrow> response" where
  "getConversations reqUser limit us ms =
     (case reqUser of
        None \<Rightarrow> (401, Failure ''NOT_AUTHENTICATED'')
      | Some currentUserId \<Rightarrow>
          (200, ConversationsBody
                  (conversationsPipeline (StringValue currentUserId) limit us ms)))"

section \<open>Socket service\<close>

record socket =
  sid :: string
  userId :: "string option"

datatype target = ToSocket string | ToAll

datatype payload =
    ErrorPayload string
  | MessageSent chatMessage
  | NewMessage chatMessage
  | Notification string string string
  | MessagesRead string nat
  | UserTyping string bool
  | UserStatus string string date

type_synonym emission = "target \<times> string \<times> payload"

text \<open>The state the service works on: the two collections, the \<open>connectedUsers\<close> map
  (\<open>userId -> socketId\<close>) and the sockets that the server currently holds connected.
  The rooms that sockets join (\<open>user_<id>\<close>, \<open>conversation_<a>_<b>\<close>) are left out: no
  handler emits to them, every emission goes through \<open>socket.emit\<close>, \<open>emitToUser\<close> or
  \<open>io.emit\<close>.\<close>

record service =
  db_users :: "user list"
  db_messages :: "chatMessage list"
  connectedUsers :: "string \<rightharpoonup> string"
  io_sockets :: "socket list"

record sendMessageData =
  d_receiverId :: string
  d_message :: string
  d_messageType :: string
  d_attachments :: "string list"

definition emitToUser :: "service \<Rightarrow> string \<Rightarrow> string \<Rightarrow> payload \<Rightarrow> emission list" where
  "emitToUser st uid event data =
     (case connectedUsers st uid of
        Some socketId \<Rightarrow> [(ToSocket socketId, event, data)]
      | None \<Rightarrow> [])"

definition broadcastUserStatus :: "string \<Rightarrow> string \<Rightarrow> date \<Rightarrow> emission list" where
  "broadcastUserStatus uid status now = [(ToAll, ''user_status'', UserStatus uid status now)]"

text \<open>The \<open>connection\<close> handler and the \<open>disconnect\<close> handler it installs.\<close>

definition onConnection :: "service \<Rightarrow> socket \<Rightarrow> date \<Rightarrow> service \<times> emission list" where
  "onConnection st sock now =
     (let st1 = st\<lparr>io_sockets := io_sockets st @ [sock]\<rparr> in
      case userId sock of
        Some uid \<Rightarrow>
          (st1\<lparr>connectedUsers := (connectedUsers st1)(uid \<mapsto> sid sock)\<rparr>,
           broadcastUserStatus uid ''online'' now)
      | None \<Rightarrow> (st1, []))"

definition onDisconnect :: "service \<Rightarrow> socket \<Rightarrow> date \<Rightarrow> service \<times> emission list" where
  "onDisconnect st sock now =
     (let st1 = st\<lparr>io_sockets := filter (\<lambda>s. sid s \<noteq> sid sock) (io_sockets st)\<rparr> in
      case userId sock of
        Some uid \<Rightarrow>
          (st1\<lparr>connectedUsers := (connectedUsers st1)(uid := None)\<rparr>,
           broadcastUserStatus uid ''offline'' now)
      | None \<Rightarrow> (st1, []))"

definition canUsersChat :: "user list \<Rightarrow> string \<Rightarrow> string \<Rightarrow> bool" where
  "canUsersChat us userId1 userId2 =
     (case (findUserById us userId1, findUserById us userId2) of
        (Some user1, Some user2) \<Rightarrow>
          if role user1 = TRAINER \<and> role user2 = USER then trainerId user2 = Some userId1
          else if role user1 = USER \<and> role user2 = TRAINER then trainerId user1 = Some userId2
          else False
      | _ \<Rightarrow> False)"

text \<open>The preview of the \<open>notification\<close> event.\<close>

definition preview :: "string \<Rightarrow> string" where
  "preview msg = (if length msg > 50 then take 50 msg @ ''...'' else msg)"

text \<open>\<open>handleSendMessage\<close>: \<open>data\<close> is the payload with the defaults of the destructuring
  applied; \<open>now\<close> and \<open>newId\<close> are the clock and the identifier generated for the new
  document. \<open>socket.emit\<close> reaches the acting socket only. After the save the sender is
  populated; reading \<open>firstName\<close> of an unpopulated sender throws into the \<open>catch\<close>.\<close>

definition handleSendMessage ::
  "service \<Rightarrow> socket \<Rightarrow> sendMessageData \<Rightarrow> date \<Rightarrow> string \<Rightarrow> service \<times> emission list" where
  "handleSendMessage st sock data now newId =
     (case userId sock of
        None \<Rightarrow> (st, [])
      | Some uid \<Rightarrow>
          if \<not> canUsersChat (db_users st) uid (d_receiverId data)
          then (st, [(ToSocket (sid sock), ''error'',
                      ErrorPayload ''No tienes permisos para chatear con este usuario'')])
          else
            (case save now (db_messages st)
                    (new_ChatMessage now newId uid (d_receiverId data) (d_message data)
                       (d_messageType data) (d_attachments data)) of
               Inl e \<Rightarrow> (st, [(ToSocket (sid sock), ''error'', ErrorPayload ''Error al enviar mensaje'')])
             | Inr (ms', newMessage) \<Rightarrow>
                 (st\<lparr>db_messages := ms'\<rparr>,
                  [(ToSocket (sid sock), ''message_sent'', MessageSent newMessage)]
                  @ emitToUser st (d_receiverId data) ''new_message'' (NewMessage newMessage)
                  @ (case findUserById (db_users st) uid of
                       Some sender \<Rightarrow>
                         emitToUser st (d_receiverId data) ''notification''
                           (Notification uid (firstName sender @ '' '' @ lastName sender)
                              (preview (d_message data)))
                     | None \<Rightarrow>
                         [(ToSocket (sid sock), ''error'', ErrorPayload ''Error al enviar mensaje'')]))))"

definition handleMarkAsRead ::
  "service \<Rightarrow> socket \<Rightarrow> string \<Rightarrow> date \<Rightarrow> date \<Rightarrow> service \<times> emission list" where
  "handleMarkAsRead st sock sender now stamp =
     (case userId sock of
        None \<Rightarrow> (st, [])
      | Some uid \<Rightarrow>
          (let result = ChatMessage_markAsRead sender uid now stamp (db_messages st)
           in (st\<lparr>db_messages := fst result\<rparr>,
               emitToUser st sender ''messages_read'' (MessagesRead uid (snd result)))))"

section \<open>Operations that change the message collection\<close>

text \<open>Every way the code writes to the collection: the save of a new document (socket
  \<open>send_message\<close> and REST \<open>sendMessage\<close>), the read-marking update (the static
  \<open>markAsRead\<close>, the controllers \<open>markAsRead\<close> and \<open>getMessages\<close>, the socket
  \<open>mark_as_read\<close>), the instance method \<open>markAsRead\<close>, and \<open>deleteMessage\<close>.\<close>

datatype storeOp =
    OpSave date string string string string string "string list"
  | OpMarkRead string string date date
  | OpDocMarkAsRead string date date
  | OpDelete string string

fun applyOp :: "storeOp \<Rightarrow> chatMessage list \<Rightarrow> chatMessage list" where
  "applyOp (OpSave now newId sender receiver msg mtype atts) ms =
     (case save now ms (new_ChatMessage now newId sender receiver msg mtype atts) of
        Inl e \<Rightarrow> ms
      | Inr r \<Rightarrow> fst r)"
| "applyOp (OpMarkRead sender receiver now stamp) ms =
     fst (ChatMessage_markAsRead sender receiver now stamp ms)"
| "applyOp (OpDocMarkAsRead i now stamp) ms = doc_markAsRead i now stamp ms"
| "applyOp (OpDelete requester i) ms = snd (deleteMessage (Some requester) i ms)"

text \<open>The read-state invariant of the data model.\<close>

definition readStateInv :: "chatMessage list \<Rightarrow> bool" where
  "readStateInv ms = list_all (\<lambda>m. isRead m = (readAt m \<noteq> None)) ms"

text \<open>The identifier generated for a new document is not in use.\<close>

fun opFresh :: "storeOp \<Rightarrow> chatMessage list \<Rightarrow> bool" where
  "opFresh (OpSave now newId sender receiver msg mtype atts) ms = (newId \<notin> set (map m_id ms))"
| "opFresh _ ms = True"

text \<open>The value of the operation's own \<open>new Date()\<close>, which it writes to \<open>readAt\<close>, if it
  reads the clock.\<close>

fun opTime :: "storeOp \<Rightarrow> date option" where
  "opTime (OpSave now newId sender receiver msg mtype atts) = Some now"
| "opTime (OpMarkRead sender receiver now stamp) = Some now"
| "opTime (OpDocMarkAsRead i now stamp) = Some now"
| "opTime (OpDelete requester i) = None"

text \<open>How one stored message may differ after an operation at time \<open>t\<close>.\<close>

definition readStep :: "date option \<Rightarrow> chatMessage \<Rightarrow> chatMessage \<Rightarrow> bool" where
  "readStep t m m' =
     ((isRead m \<longrightarrow> isRead m' \<and> readAt m' = readAt m) \<and>
      (\<not> isRead m \<and> isRead m' \<longrightarrow> t \<noteq> None \<and> readAt m' = t) \<and>
      (\<not> isRead m \<and> \<not> isRead m' \<longrightarrow> readAt m' = readAt m))"

section \<open>Example data\<close>

text \<open>A trainer \<open>T\<close>, their client \<open>C\<close>, and a user \<open>U\<close> without a trainer.\<close>

definition exT :: user where
  "exT = \<lparr> u_id = ''T'', role = TRAINER, trainerId = None, firstName = ''Tina'',
     lastName = ''Trainer'', profilePicture = None, isActive = True \<rparr>"

definition exC :: user where
  "exC = \<lparr> u_id = ''C'', role = USER, trainerId = Some ''T'', firstName = ''Carl'',
     lastName = ''Client'', profilePicture = None, isActive = True \<rparr>"

definition exU :: user where
  "exU = \<lparr> u_id = ''U'', role = USER, trainerId = None, firstName = ''Uma'',
     lastName = ''User'', profilePicture = None, isActive = True \<rparr>"

definition exM1 :: chatMessage where
  "exM1 = \<lparr> m_id = ''m1'', senderId = ''T'', receiverId = ''C'', message = ''Hi'',
     messageType = ''text'', attachments = [], isRead = False, readAt = None,
     createdAt = 1000, updatedAt = 1000 \<rparr>"

definition exM2 :: chatMessage where
  "exM2 = \<lparr> m_id = ''m2'', senderId = ''C'', receiverId = ''T'', message = ''Hello'',
     messageType = ''text'', attachments = [], isRead = False, readAt = None,
     createdAt = 1000, updatedAt = 1000 \<rparr>"

definition exM3 :: chatMessage where
  "exM3 = \<lparr> m_id = ''m3'', senderId = ''T'', receiverId = ''C'', message = ''Later'',
     messageType = ''text'', attachments = [], isRead = False, readAt = None,
     createdAt = 2000, updatedAt = 2000 \<rparr>"

definition exSt0 :: service where
  "exSt0 = \<lparr> db_users = [exT, exC, exU], db_messages = [], connectedUsers = Map.empty,
     io_sockets = [] \<rparr>"

text \<open>Two sockets of the client and one of the trainer.\<close>

definition sockC1 :: socket where
  "sockC1 = \<lparr> sid = ''c1'', userId = Some ''C'' \<rparr>"

definition sockC2 :: socket where
  "sockC2 = \<lparr> sid = ''c2'', userId = Some ''C'' \<rparr>"

definition sockT :: socket where
  "sockT = \<lparr> sid = ''t1'', userId = Some ''T'' \<rparr>"

definition exData :: sendMessageData where
  "exData = \<lparr> d_receiverId = ''C'', d_message = ''Hi'', d_messageType = ''text'',
     d_attachments = [] \<rparr>"

text \<open>The state after the client connected twice and the trainer once.\<close>

definition exSt3 :: service where
  "exSt3 = fst (onConnection (fst (onConnection (fst (onConnection exSt0 sockC1 1)) sockC2 2)) sockT 3)"

section \<open>Lookup and deletion by id\<close>

lemma findById_None_delete: "findById ms i = None \<Longrightarrow> findByIdAndDelete ms i = ms"
  by (induction ms) (auto simp: findById_def split: if_splits)

lemma findById_Some_mem: "findById ms i = Some m \<Longrightarrow> m \<in> set ms \<and> m_id m = i"
  by (induction ms) (auto simp: findById_def split: if_splits)

lemma findByIdAndDelete_remove1:
  "findById ms i = Some m \<Longrightarrow> findByIdAndDelete ms i = remove1 m ms"
proof (induction ms)
  case Nil
  then show ?case by (simp add: findById_def)
next
  case (Cons a ms)
  show ?case
  proof (cases "m_id a = i")
    case True
    then show ?thesis using Cons.prems by (simp add: findById_def)
  next
    case False
    then have f: "findById ms i = Some m" using Cons.prems by (simp add: findById_def)
    then have "m_id m = i" using findById_Some_mem by blast
    then have "m \<noteq> a" using False by auto
    then show ?thesis using False Cons.IH[OF f] by simp
  qed
qed

lemma findByIdAndDelete_distinct:
  "distinct (map m_id ms) \<Longrightarrow> findByIdAndDelete ms i = filter (\<lambda>m. m_id m \<noteq> i) ms"
proof (induction ms)
  case Nil
  then show ?case by simp
next
  case (Cons a ms)
  have "m_id a = i \<Longrightarrow> filter (\<lambda>m. m_id m \<noteq> i) ms = ms"
    using Cons.prems by (auto simp: filter_id_conv) (metis imageI)
  with Cons show ?case by auto
qed

lemma findById_filter_None: "findById (filter (\<lambda>m. m_id m \<noteq> i) ms) i = None"
  by (simp add: findById_def find_None_iff)

section \<open>Deleting a message\<close>

text \<open>
  Claim C9. \<open>deleteMessage\<close> answers 404 \<open>MESSAGE_NOT_FOUND\<close> when no message has the id;
  it answers 403 \<open>INSUFFICIENT_PERMISSIONS\<close> and leaves the collection as it was when the
  requester is not the sender of the message; when the requester is the sender it answers
  200 and removes that message (with unique ids no message of that id remains and every
  other message stays); and the collection changes only in that last case.
\<close>

theorem deleteMessage_ownership:
  "(findById ms i = None \<longrightarrow>
      deleteMessage (Some r) i ms = ((404, Failure ''MESSAGE_NOT_FOUND''), ms)) \<and>
   (\<forall>m. findById ms i = Some m \<and> senderId m \<noteq> r \<longrightarrow>
      deleteMessage (Some r) i ms = ((403, Failure ''INSUFFICIENT_PERMISSIONS''), ms)) \<and>
   (\<forall>m. findById ms i = Some m \<and> senderId m = r \<longrightarrow>
      deleteMessage (Some r) i ms = ((200, DeletedBody i), remove1 m ms) \<and>
      (distinct (map m_id ms) \<longrightarrow>
         findById (snd (deleteMessage (Some r) i ms)) i = None \<and>
         set (snd (deleteMessage (Some r) i ms)) = set ms - {m})) \<and>
   (snd (deleteMessage (Some r) i ms) \<noteq> ms \<longrightarrow>
      (\<exists>m. findById ms i = Some m \<and> senderId m = r))"
proof (cases "findById ms i")
  case None
  then show ?thesis by (simp add: deleteMessage_def)
next
  case (Some m)
  show ?thesis
  proof (cases "senderId m = r")
    case True
    have del: "deleteMessage (Some r) i ms = ((200, DeletedBody i), remove1 m ms)"
      using Some True by (simp add: deleteMessage_def findByIdAndDelete_remove1)
    have d: "distinct (map m_id ms) \<Longrightarrow>
               findById (remove1 m ms) i = None \<and> set (remove1 m ms) = set ms - {m}"
    proof -
      assume dist: "distinct (map m_id ms)"
      then have "distinct ms" by (simp add: distinct_map)
      then have s: "set (remove1 m ms) = set ms - {m}" by simp
      have "remove1 m ms = filter (\<lambda>m. m_id m \<noteq> i) ms"
        using findByIdAndDelete_distinct[OF dist, of i] findByIdAndDelete_remove1[OF Some]
        by simp
      then show ?thesis using s findById_filter_None[of i ms] by simp
    qed
    show ?thesis using Some True del d by auto
  next
    case False
    then show ?thesis using Some by (simp add: deleteMessage_def)
  qed
qed

theorem deleteMessage_ownership_witness:
  "deleteMessage (Some ''T'') ''m9'' [exM1, exM2]
     = ((404, Failure ''MESSAGE_NOT_FOUND''), [exM1, exM2]) \<and>
   deleteMessage (Some ''T'') ''m2'' [exM1, exM2]
     = ((403, Failure ''INSUFFICIENT_PERMISSIONS''), [exM1, exM2]) \<and>
   deleteMessage (Some ''T'') ''m1'' [exM1, exM2] = ((200, DeletedBody ''m1''), [exM2]) \<and>
   findById (snd (deleteMessage (Some ''T'') ''m1'' [exM1, exM2])) ''m1'' = None"
proof -
  have a: "findById [exM1, exM2] ''m9'' = None"
    by (simp add: findById_def exM1_def exM2_def)
  have b: "findById [exM1, exM2] ''m2'' = Some exM2 \<and> senderId exM2 \<noteq> ''T''"
    by (simp add: findById_def exM1_def exM2_def)
  have c: "findById [exM1, exM2] ''m1'' = Some exM1 \<and> senderId exM1 = ''T''"
    by (simp add: findById_def exM1_def exM2_def)
  have d: "distinct (map m_id [exM1, exM2])"
    by (simp add: exM1_def exM2_def)
  show ?thesis
    using a b c d deleteMessage_ownership[of "[exM1, exM2]" "''m9''" "''T''"]
      deleteMessage_ownership[of "[exM1, exM2]" "''m2''" "''T''"]
      deleteMessage_ownership[of "[exM1, exM2]" "''m1''" "''T''"]
    by (simp add: findById_def exM2_def)
qed

section \<open>Facts about the example data\<close>

lemma exM1_fields:
  "m_id exM1 = ''m1''" "senderId exM1 = ''T''" "receiverId exM1 = ''C''" "isRead exM1 = False"
  "readAt exM1 = None" "createdAt exM1 = 1000" "updatedAt exM1 = 1000"
  by (simp_all add: exM1_def)

lemma exM2_fields:
  "m_id exM2 = ''m2''" "senderId exM2 = ''C''" "receiverId exM2 = ''T''" "isRead exM2 = False"
  "readAt exM2 = None" "createdAt exM2 = 1000" "updatedAt exM2 = 1000"
  by (simp_all add: exM2_def)

section \<open>Marking messages as read\<close>

lemma markAsRead_no_unread:
  "filter (unreadFrom s r) (fst (ChatMessage_markAsRead s r t u ms)) = []"
  by (induction ms) (auto simp: ChatMessage_markAsRead_def unreadFrom_def)

lemma markAsRead_fixed:
  "filter (unreadFrom s r) ms = [] \<Longrightarrow> ChatMessage_markAsRead s r t u ms = (ms, 0)"
  by (induction ms) (auto simp: ChatMessage_markAsRead_def split: if_splits)

text \<open>
  Claim C5. The controller \<open>markAsRead\<close> for reader \<open>r\<close> and partner \<open>s\<close> answers 200 with
  \<open>markedCount\<close> the number of messages from \<open>s\<close> to \<open>r\<close> that were unread, and sets
  \<open>isRead\<close> and \<open>readAt\<close> (and, through the schema's timestamps, \<open>updatedAt\<close>) on exactly
  those messages; invoked again on the resulting collection it answers
  \<open>markedCount = 0\<close> and changes nothing. The same holds for the static \<open>markAsRead\<close> of
  the model.
\<close>

theorem markRead_idempotent:
  "snd (markAsRead (Some r) s t1 u1 ms) =
     fst (ChatMessage_markAsRead s r t1 u1 ms) \<and>
   fst (markAsRead (Some r) s t1 u1 ms) =
     (200, MarkedBody (length (filter (unreadFrom s r) ms)) s) \<and>
   snd (markAsRead (Some r) s t1 u1 ms) =
     map (\<lambda>m. if senderId m = s \<and> receiverId m = r \<and> \<not> isRead m
               then m\<lparr>isRead := True, readAt := Some t1, updatedAt := u1\<rparr> else m) ms \<and>
   markAsRead (Some r) s t2 u2 (snd (markAsRead (Some r) s t1 u1 ms)) =
     ((200, MarkedBody 0 s), snd (markAsRead (Some r) s t1 u1 ms)) \<and>
   ChatMessage_markAsRead s r t2 u2 (fst (ChatMessage_markAsRead s r t1 u1 ms)) =
     (fst (ChatMessage_markAsRead s r t1 u1 ms), 0)"
proof -
  have again: "ChatMessage_markAsRead s r t2 u2 (fst (ChatMessage_markAsRead s r t1 u1 ms)) =
     (fst (ChatMessage_markAsRead s r t1 u1 ms), 0)"
    by (rule markAsRead_fixed) (rule markAsRead_no_unread)
  have shape: "fst (ChatMessage_markAsRead s r t1 u1 ms) =
     map (\<lambda>m. if senderId m = s \<and> receiverId m = r \<and> \<not> isRead m
               then m\<lparr>isRead := True, readAt := Some t1, updatedAt := u1\<rparr> else m) ms"
    by (simp add: ChatMessage_markAsRead_def unreadFrom_def)
  have cnt: "snd (ChatMessage_markAsRead s r t1 u1 ms) = length (filter (unreadFrom s r) ms)"
    by (simp add: ChatMessage_markAsRead_def)
  show ?thesis
    using again shape cnt by (simp add: markAsRead_def Let_def)
qed

theorem markRead_idempotent_witness:
  "fst (markAsRead (Some ''C'') ''T'' 2000 2001 [exM1, exM2]) = (200, MarkedBody 1 ''T'') \<and>
   snd (markAsRead (Some ''C'') ''T'' 2000 2001 [exM1, exM2])
      = [exM1\<lparr>isRead := True, readAt := Some 2000, updatedAt := 2001\<rparr>, exM2] \<and>
   markAsRead (Some ''C'') ''T'' 3000 3001
       (snd (markAsRead (Some ''C'') ''T'' 2000 2001 [exM1, exM2]))
      = ((200, MarkedBody 0 ''T''),
         [exM1\<lparr>isRead := True, readAt := Some 2000, updatedAt := 2001\<rparr>, exM2])"
proof -
  have a: "fst (markAsRead (Some ''C'') ''T'' 2000 2001 [exM1, exM2]) =
             (200, MarkedBody (length (filter (unreadFrom ''T'' ''C'') [exM1, exM2])) ''T'')"
    and b: "snd (markAsRead (Some ''C'') ''T'' 2000 2001 [exM1, exM2]) =
             map (\<lambda>m. if senderId m = ''T'' \<and> receiverId m = ''C'' \<and> \<not> isRead m
                       then m\<lparr>isRead := True, readAt := Some 2000, updatedAt := 2001\<rparr> else m)
                 [exM1, exM2]"
    and c: "markAsRead (Some ''C'') ''T'' 3000 3001
               (snd (markAsRead (Some ''C'') ''T'' 2000 2001 [exM1, exM2]))
             = ((200, MarkedBody 0 ''T''),
                snd (markAsRead (Some ''C'') ''T'' 2000 2001 [exM1, exM2]))"
    using markRead_idempotent[of "''C''" "''T''" 2000 2001 "[exM1, exM2]" 3000 3001] by blast+
  have b': "snd (markAsRead (Some ''C'') ''T'' 2000 2001 [exM1, exM2])
              = [exM1\<lparr>isRead := True, readAt := Some 2000, updatedAt := 2001\<rparr>, exM2]"
    unfolding b by (simp add: exM1_fields exM2_fields)
  show ?thesis using a c b' by (simp add: unreadFrom_def exM1_fields exM2_fields)
qed

section \<open>Reading the history marks messages as read\<close>

lemma markAsRead_length: "length (fst (ChatMessage_markAsRead s r t u ms)) = length ms"
  by (simp add: ChatMessage_markAsRead_def)

lemma markAsRead_nth:
  "k < length ms \<Longrightarrow>
   fst (ChatMessage_markAsRead s r t u ms) ! k =
     (if unreadFrom s r (ms ! k)
      then (ms ! k)\<lparr>isRead := True, readAt := Some t, updatedAt := u\<rparr> else ms ! k)"
  by (simp add: ChatMessage_markAsRead_def)

lemma exGetMessages_store:
  "snd (getMessages sortCreatedAtDesc (Some ''C'') ''T'' 1 50 2000 2001 [exT, exC] [exM1, exM2])
     = [exM1\<lparr>isRead := True, readAt := Some 2000, updatedAt := 2001\<rparr>, exM2]"
  by (simp add: getMessages_def Let_def ChatMessage_markAsRead_def unreadFrom_def
        exM1_fields exM2_fields)

text \<open>
  Claim C10, as stated, fails in its frame. The client \<open>C\<close> fetches the history with the
  trainer \<open>T\<close>; the trainer's unread message \<open>m1\<close>, last updated at 1000, is marked read
  by an update executed at 2001, and besides \<open>isRead\<close> and \<open>readAt\<close> its \<open>updatedAt\<close> is
  now 2001.
\<close>

theorem getMessages_rewrites_updatedAt_counterexample:
  "m_id ([exM1, exM2] ! 0) = ''m1'' \<and>
   updatedAt ([exM1, exM2] ! 0) = 1000 \<and>
   m_id (snd (getMessages sortCreatedAtDesc (Some ''C'') ''T'' 1 50 2000 2001 [exT, exC]
               [exM1, exM2]) ! 0) = ''m1'' \<and>
   updatedAt (snd (getMessages sortCreatedAtDesc (Some ''C'') ''T'' 1 50 2000 2001 [exT, exC]
               [exM1, exM2]) ! 0) = 2001"
  unfolding exGetMessages_store by (simp add: exM1_fields)

text \<open>
  Claim C10, amended. For a requester \<open>cur\<close>, a different partner and a page number that
  the route lets through (\<open>page \<ge> 1\<close>), \<open>getMessages\<close> leaves the collection in the state
  that the explicit \<open>markAsRead\<close> of the same moment produces: every message from the
  partner to the requester that was unread has \<open>isRead = True\<close>, \<open>readAt = Some now\<close> and
  \<open>updatedAt\<close> rewritten with the time of the update; every other message, in particular
  every message sent by the requester, is unchanged; and no field other than these three
  changes on any message. When the senders of the page exist, the answer is 200 with the
  requested page of the history as it was read before the update, in chronological
  order.
\<close>

theorem getMessages_marks_read:
  assumes "cur \<noteq> partner" and "1 \<le> page"
  shows "snd (getMessages storeSort (Some cur) partner page limit now stamp us ms) =
           snd (markAsRead (Some cur) partner now stamp ms) \<and>
         length (snd (getMessages storeSort (Some cur) partner page limit now stamp us ms))
           = length ms \<and>
         (\<forall>k < length ms.
            (let m = ms ! k;
                 m' = snd (getMessages storeSort (Some cur) partner page limit now stamp us ms) ! k
             in
               (senderId m = partner \<and> receiverId m = cur \<and> \<not> isRead m \<longrightarrow>
                  m' = m\<lparr>isRead := True, readAt := Some now, updatedAt := stamp\<rparr>) \<and>
               (\<not> (senderId m = partner \<and> receiverId m = cur \<and> \<not> isRead m) \<longrightarrow> m' = m) \<and>
               (senderId m = cur \<longrightarrow> m' = m) \<and>
               m_id m' = m_id m \<and> senderId m' = senderId m \<and> receiverId m' = receiverId m \<and>
               message m' = message m \<and> messageType m' = messageType m \<and>
               attachments m' = attachments m \<and> createdAt m' = createdAt m)) \<and>
         (list_all (\<lambda>m. findUserById us (senderId m) \<noteq> None)
              (findConversation storeSort ms cur partner limit ((page - 1) * limit)) \<longrightarrow>
            (\<exists>pg. fst (getMessages storeSort (Some cur) partner page limit now stamp us ms) =
               (200, MessagesBody
                  (rev (map (\<lambda>m. (m, senderId m = cur))
                     (findConversation storeSort ms cur partner limit ((page - 1) * limit))))
                  pg)))"
proof -
  have p: "page \<noteq> 0" using assms(2) by simp
  have st: "snd (getMessages storeSort (Some cur) partner page limit now stamp us ms) =
              fst (ChatMessage_markAsRead partner cur now stamp ms)"
    using p by (simp add: getMessages_def Let_def)
  have st2: "snd (markAsRead (Some cur) partner now stamp ms) =
              fst (ChatMessage_markAsRead partner cur now stamp ms)"
    by (simp add: markAsRead_def Let_def)
  have frame: "\<forall>k < length ms.
            (let m = ms ! k; m' = fst (ChatMessage_markAsRead partner cur now stamp ms) ! k in
               (senderId m = partner \<and> receiverId m = cur \<and> \<not> isRead m \<longrightarrow>
                  m' = m\<lparr>isRead := True, readAt := Some now, updatedAt := stamp\<rparr>) \<and>
               (\<not> (senderId m = partner \<and> receiverId m = cur \<and> \<not> isRead m) \<longrightarrow> m' = m) \<and>
               (senderId m = cur \<longrightarrow> m' = m) \<and>
               m_id m' = m_id m \<and> senderId m' = senderId m \<and> receiverId m' = receiverId m \<and>
               message m' = message m \<and> messageType m' = messageType m \<and>
               attachments m' = attachments m \<and> createdAt m' = createdAt m)"
    using assms(1) by (auto simp: markAsRead_nth unreadFrom_def Let_def)
  have page: "list_all (\<lambda>m. findUserById us (senderId m) \<noteq> None)
              (findConversation storeSort ms cur partner limit ((page - 1) * limit)) \<Longrightarrow>
            (\<exists>pg. fst (getMessages storeSort (Some cur) partner page limit now stamp us ms) =
               (200, MessagesBody
                  (rev (map (\<lambda>m. (m, senderId m = cur))
                     (findConversation storeSort ms cur partner limit ((page - 1) * limit))))
                  pg))"
    using p by (simp add: getMessages_def findConversation_def Let_def)
  show ?thesis
    using st st2 frame page markAsRead_length[of partner cur now stamp ms] by simp
qed

theorem getMessages_marks_read_witness:
  "''C'' \<noteq> ''T'' \<and> (1::nat) \<le> 1 \<and>
   snd (getMessages sortCreatedAtDesc (Some ''C'') ''T'' 1 50 2000 2001 [exT, exC] [exM1, exM2])
     = [exM1\<lparr>isRead := True, readAt := Some 2000, updatedAt := 2001\<rparr>, exM2] \<and>
   snd (getMessages sortCreatedAtDesc (Some ''C'') ''T'' 1 50 2000 2001 [exT, exC] [exM1, exM2])
     \<noteq> [exM1, exM2]"
proof -
  have ne: "''C'' \<noteq> ''T''" by simp
  have pg: "(1::nat) \<le> 1" by simp
  have "snd (markAsRead (Some ''C'') ''T'' 2000 2001 [exM1, exM2])
          = [exM1\<lparr>isRead := True, readAt := Some 2000, updatedAt := 2001\<rparr>, exM2]"
    by (simp add: markAsRead_def ChatMessage_markAsRead_def unreadFrom_def exM1_fields exM2_fields)
  moreover have "exM1\<lparr>isRead := True, readAt := Some 2000, updatedAt := 2001\<rparr> \<noteq> exM1"
    by (simp add: exM1_def)
  ultimately show ?thesis
    using getMessages_marks_read[OF ne pg, of sortCreatedAtDesc 50 2000 2001 "[exT, exC]"
            "[exM1, exM2]"]
    by simp
qed

section \<open>Sending to a user without a trainer-client relationship\<close>

lemma canUsersChat_needs_assignment:
  assumes "canUsersChat us a b"
  shows "(\<exists>u. findUserById us b = Some u \<and> trainerId u = Some a) \<or>
         (\<exists>u. findUserById us a = Some u \<and> trainerId u = Some b)"
  using assms
  by (auto simp: canUsersChat_def split: option.splits if_splits)

text \<open>
  Claim C1. When an authenticated socket sends a message to a receiver with whom
  \<open>canUsersChat\<close> finds no trainer-client relationship, in particular when neither of the
  two is the assigned trainer of the other, the service state, and with it the message
  collection, is unchanged and the only emission is one \<open>error\<close> event to the acting
  socket: nothing is broadcast and nothing is addressed to any other socket.
\<close>

theorem send_message_unrelated_rejected:
  assumes "userId sock = Some uid"
      and "\<not> canUsersChat (db_users st) uid (d_receiverId data) \<or>
           (\<forall>u. findUserById (db_users st) uid = Some u \<longrightarrow> trainerId u \<noteq> Some (d_receiverId data)) \<and>
           (\<forall>u. findUserById (db_users st) (d_receiverId data) = Some u \<longrightarrow> trainerId u \<noteq> Some uid)"
  shows "handleSendMessage st sock data now newId =
           (st, [(ToSocket (sid sock), ''error'',
                  ErrorPayload ''No tienes permisos para chatear con este usuario'')]) \<and>
         db_messages (fst (handleSendMessage st sock data now newId)) = db_messages st \<and>
         (\<forall>e \<in> set (snd (handleSendMessage st sock data now newId)). fst e = ToSocket (sid sock))"
proof -
  have "\<not> canUsersChat (db_users st) uid (d_receiverId data)"
    using assms(2) canUsersChat_needs_assignment[of "db_users st" uid "d_receiverId data"]
    by blast
  then show ?thesis using assms(1) by (simp add: handleSendMessage_def)
qed

theorem send_message_unrelated_rejected_witness:
  "handleSendMessage \<lparr> db_users = [exT, exC, exU], db_messages = [exM1],
        connectedUsers = [''T'' \<mapsto> ''s1'', ''U'' \<mapsto> ''s2''], io_sockets = [] \<rparr>
      \<lparr> sid = ''s2'', userId = Some ''U'' \<rparr>
      \<lparr> d_receiverId = ''T'', d_message = ''Hi'', d_messageType = ''text'', d_attachments = [] \<rparr>
      5000 ''m7''
   = (\<lparr> db_users = [exT, exC, exU], db_messages = [exM1],
        connectedUsers = [''T'' \<mapsto> ''s1'', ''U'' \<mapsto> ''s2''], io_sockets = [] \<rparr>,
      [(ToSocket ''s2'', ''error'',
        ErrorPayload ''No tienes permisos para chatear con este usuario'')])"
proof -
  have "\<not> canUsersChat [exT, exC, exU] ''U'' ''T''"
    by (simp add: canUsersChat_def findUserById_def exT_def exC_def exU_def)
  then show ?thesis
    using send_message_unrelated_rejected[of "\<lparr> sid = ''s2'', userId = Some ''U'' \<rparr>" "''U''"
        "\<lparr> db_users = [exT, exC, exU], db_messages = [exM1],
           connectedUsers = [''T'' \<mapsto> ''s1'', ''U'' \<mapsto> ''s2''], io_sockets = [] \<rparr>"
        "\<lparr> d_receiverId = ''T'', d_message = ''Hi'', d_messageType = ''text'',
           d_attachments = [] \<rparr>" 5000 "''m7''"]
    by simp
qed

section \<open>The connection registry\<close>

lemma exSt3_eq:
  "exSt3 = \<lparr> db_users = [exT, exC, exU], db_messages = [],
      connectedUsers = [''C'' \<mapsto> ''c2'', ''T'' \<mapsto> ''t1''],
      io_sockets = [sockC1, sockC2, sockT] \<rparr>"
  by (simp add: exSt3_def exSt0_def onConnection_def sockC1_def sockC2_def sockT_def Let_def)

lemma trim_Hi: "trim ''Hi'' = ''Hi''"
  by (simp add: trim_def isWhiteSpace_def)

lemma canChat_T_C: "canUsersChat [exT, exC, exU] ''T'' ''C''"
  by (simp add: canUsersChat_def findUserById_def exT_def exC_def exU_def)

lemma exSave:
  "save 1000 [] (new_ChatMessage 1000 ''m1'' ''T'' ''C'' ''Hi'' ''text'' []) = Inr ([exM1], exM1)"
  by (simp add: save_def new_ChatMessage_def trim_Hi validateSchema_def preSaveContent_def
        preSaveReadAt_def exM1_def Let_def)

lemma findUser_T: "findUserById [exT, exC, exU] ''T'' = Some exT"
  by (simp add: findUserById_def exT_def)

lemma exT_name: "firstName exT @ CHR '' '' # lastName exT = ''Tina Trainer''"
  by (simp add: exT_def)

lemma exSend:
  "handleSendMessage exSt3 sockT exData 1000 ''m1'' =
     (exSt3\<lparr>db_messages := [exM1]\<rparr>,
      [(ToSocket ''t1'', ''message_sent'', MessageSent exM1),
       (ToSocket ''c2'', ''new_message'', NewMessage exM1),
       (ToSocket ''c2'', ''notification'', Notification ''T'' ''Tina Trainer'' ''Hi'')])"
  unfolding exSt3_eq
  by (simp add: handleSendMessage_def sockT_def exData_def canChat_T_C exSave emitToUser_def
       findUser_T exT_name preview_def)

text \<open>
  Claim C2, as stated, fails. The client connects with socket \<open>c1\<close> and then with socket
  \<open>c2\<close>; both are connected, but \<open>connectedUsers\<close> holds \<open>c2\<close> only, and the trainer's
  successful \<open>send_message\<close> persists the message without any \<open>new_message\<close> for \<open>c1\<close>.
\<close>

theorem registry_single_handle_counterexample:
  "sockC1 \<in> set (io_sockets exSt3) \<and> sockC2 \<in> set (io_sockets exSt3) \<and>
   userId sockC1 = Some ''C'' \<and> userId sockC2 = Some ''C'' \<and>
   connectedUsers exSt3 ''C'' = Some ''c2'' \<and>
   db_messages (fst (handleSendMessage exSt3 sockT exData 1000 ''m1'')) = [exM1] \<and>
   (ToSocket (sid sockC1), ''new_message'', NewMessage exM1)
      \<notin> set (snd (handleSendMessage exSt3 sockT exData 1000 ''m1''))"
  unfolding exSend
  by (simp add: exSt3_eq sockC1_def sockC2_def)

text \<open>
  Claim C2, amended. \<open>connectedUsers\<close> maps a user id to one socket id: a connection of
  a user stores its socket id under the user, replacing whatever was stored, and leaves
  the entries of other users alone. A successful \<open>send_message\<close> emits \<open>new_message\<close>
  to exactly the socket id stored for the receiver, and to nobody when none is stored.
\<close>

theorem registry_latest_handle:
  "(userId sock = Some u \<longrightarrow>
      connectedUsers (fst (onConnection st sock now)) u = Some (sid sock) \<and>
      (\<forall>v. v \<noteq> u \<longrightarrow> connectedUsers (fst (onConnection st sock now)) v = connectedUsers st v)) \<and>
   (userId sender = Some uid \<and> canUsersChat (db_users st) uid (d_receiverId data) \<and>
    save t (db_messages st)
      (new_ChatMessage t newId uid (d_receiverId data) (d_message data) (d_messageType data)
         (d_attachments data)) = Inr (ms', m) \<longrightarrow>
      db_messages (fst (handleSendMessage st sender data t newId)) = ms' \<and>
      filter (\<lambda>e. fst (snd e) = ''new_message'') (snd (handleSendMessage st sender data t newId)) =
        (case connectedUsers st (d_receiverId data) of
           Some h \<Rightarrow> [(ToSocket h, ''new_message'', NewMessage m)]
         | None \<Rightarrow> []))"
  by (auto simp: onConnection_def Let_def handleSendMessage_def emitToUser_def
        split: option.splits)

theorem registry_latest_handle_witness:
  "connectedUsers (fst (onConnection (fst (onConnection exSt0 sockC1 1)) sockC2 2)) ''C'' = Some ''c2'' \<and>
   filter (\<lambda>e. fst (snd e) = ''new_message'') (snd (handleSendMessage exSt3 sockT exData 1000 ''m1''))
     = [(ToSocket ''c2'', ''new_message'', NewMessage exM1)]"
proof -
  have a: "userId sockC2 = Some ''C''" "sid sockC2 = ''c2''" by (simp_all add: sockC2_def)
  have b: "userId sockT = Some ''T''" by (simp add: sockT_def)
  have c: "canUsersChat (db_users exSt3) ''T'' (d_receiverId exData)"
    by (simp add: exSt3_eq exData_def canChat_T_C)
  have d: "save 1000 (db_messages exSt3)
      (new_ChatMessage 1000 ''m1'' ''T'' (d_receiverId exData) (d_message exData)
         (d_messageType exData) (d_attachments exData)) = Inr ([exM1], exM1)"
    by (simp add: exSt3_eq exData_def exSave)
  have e: "connectedUsers exSt3 (d_receiverId exData) = Some ''c2''"
    by (simp add: exSt3_eq exData_def)
  show ?thesis
    using registry_latest_handle[of sockC2 "''C''" "fst (onConnection exSt0 sockC1 1)" 2
            sockT "''T''" exData 1000 "''m1''" "[exM1]" exM1]
          registry_latest_handle[of sockC2 "''C''" exSt3 2
            sockT "''T''" exData 1000 "''m1''" "[exM1]" exM1]
          a b c d e
    by simp
qed

section \<open>Presence events\<close>

text \<open>
  Claim C3, as stated, fails in its last part. With socket \<open>c1\<close> of the client registered
  and connected, the connection of the client's second socket \<open>c2\<close> broadcasts \<open>online\<close>
  again; and with \<open>c2\<close> still connected, the disconnect of \<open>c1\<close> broadcasts \<open>offline\<close>.
\<close>

theorem presence_intermediate_counterexample:
  "connectedUsers (fst (onConnection exSt0 sockC1 1)) ''C'' = Some ''c1'' \<and>
   sockC1 \<in> set (io_sockets (fst (onConnection exSt0 sockC1 1))) \<and>
   snd (onConnection (fst (onConnection exSt0 sockC1 1)) sockC2 2)
      = [(ToAll, ''user_status'', UserStatus ''C'' ''online'' 2)] \<and>
   sockC2 \<in> set (io_sockets (fst (onDisconnect exSt3 sockC1 4))) \<and>
   snd (onDisconnect exSt3 sockC1 4) = [(ToAll, ''user_status'', UserStatus ''C'' ''offline'' 4)]"
  by (simp add: exSt3_eq exSt0_def onConnection_def onDisconnect_def sockC1_def sockC2_def sockT_def
        broadcastUserStatus_def Let_def)

text \<open>
  Claim C3, amended. Every connection of an authenticated socket broadcasts exactly one
  \<open>user_status\<close> event with status \<open>online\<close>, and every disconnect of one broadcasts
  exactly one with status \<open>offline\<close>, whatever the registry and the other connected
  sockets are: the first connection and the last disconnect of a user as the claim says,
  and the intermediate ones as well.
\<close>

theorem presence_every_transition:
  assumes "userId sock = Some u"
  shows "snd (onConnection st sock now) = [(ToAll, ''user_status'', UserStatus u ''online'' now)] \<and>
         snd (onDisconnect st sock now) = [(ToAll, ''user_status'', UserStatus u ''offline'' now)]"
  using assms by (simp add: onConnection_def onDisconnect_def broadcastUserStatus_def Let_def)

theorem presence_every_transition_witness:
  "snd (onConnection exSt0 sockC1 1) = [(ToAll, ''user_status'', UserStatus ''C'' ''online'' 1)] \<and>
   snd (onDisconnect (fst (onConnection exSt0 sockC1 1)) sockC1 2)
     = [(ToAll, ''user_status'', UserStatus ''C'' ''offline'' 2)]"
proof -
  have a: "userId sockC1 = Some ''C''" by (simp add: sockC1_def)
  show ?thesis
    using presence_every_transition[OF a, of exSt0 1]
      presence_every_transition[OF a, of "fst (onConnection exSt0 sockC1 1)" 2]
    by simp
qed

section \<open>The read state of a message\<close>

lemma same_id_same_message:
  assumes "distinct (map m_id ms)" "m \<in> set ms" "x \<in> set ms" "m_id x = m_id m"
  shows "x = m"
  using assms by (meson distinct_map inj_onD)

lemma distinct_ids_remove1:
  "distinct (map m_id ms) \<Longrightarrow> distinct (map m_id (remove1 m ms))"
proof (induction ms)
  case Nil
  then show ?case by simp
next
  case (Cons a ms)
  have "m_id a \<notin> m_id ` set (remove1 m ms)"
    using Cons.prems set_remove1_subset[of m ms] by auto
  then show ?case using Cons by auto
qed

lemma updateOneById_map:
  "distinct (map m_id ms) \<Longrightarrow>
   updateOneById ms i d = map (\<lambda>x. if m_id x = i then d else x) ms"
proof (induction ms)
  case Nil
  then show ?case by simp
next
  case (Cons a ms)
  have "m_id a = i \<Longrightarrow> map (\<lambda>x. if m_id x = i then d else x) ms = ms"
    using Cons.prems by (intro map_idI) (auto, metis imageI)
  with Cons show ?case by auto
qed

lemma applyOp_cases:
  assumes "distinct (map m_id ms)"
  shows "(\<exists>f. applyOp op ms = map f ms \<and> (\<forall>m \<in> set ms. m_id (f m) = m_id m \<and> readStep (opTime op) m (f m)
            \<and> ((isRead m = (readAt m \<noteq> None)) \<longrightarrow> (isRead (f m) = (readAt (f m) \<noteq> None))))) \<or>
         (\<exists>d. applyOp op ms = ms @ [d] \<and> \<not> isRead d \<and> readAt d = None \<and>
              (opFresh op ms \<longrightarrow> m_id d \<notin> set (map m_id ms))) \<or>
         (\<exists>m. applyOp op ms = remove1 m ms)"
proof (cases op)
  case (OpSave now newId sender receiver msg mtype atts)
  show ?thesis
  proof (cases "save now ms (new_ChatMessage now newId sender receiver msg mtype atts)")
    case (Inl e)
    then have "applyOp op ms = map id ms" using OpSave by simp
    then show ?thesis by (auto simp: readStep_def intro!: exI[of _ id])
  next
    case (Inr r)
    then have "applyOp op ms = ms @ [new_ChatMessage now newId sender receiver msg mtype atts]"
      using OpSave
      by (auto simp: save_def preSaveReadAt_def new_ChatMessage_def Let_def split: if_splits option.splits)
    then show ?thesis using OpSave by (auto simp: new_ChatMessage_def)
  qed
next
  case (OpMarkRead sender receiver now stamp)
  let ?f = "\<lambda>m. if unreadFrom sender receiver m
                then m\<lparr>isRead := True, readAt := Some now, updatedAt := stamp\<rparr> else m"
  have "applyOp op ms = map ?f ms" using OpMarkRead by (simp add: ChatMessage_markAsRead_def)
  moreover have "\<forall>m \<in> set ms. m_id (?f m) = m_id m \<and> readStep (opTime op) m (?f m)
            \<and> ((isRead m = (readAt m \<noteq> None)) \<longrightarrow> (isRead (?f m) = (readAt (?f m) \<noteq> None)))"
    using OpMarkRead by (auto simp: readStep_def unreadFrom_def)
  ultimately show ?thesis by blast
next
  case (OpDocMarkAsRead i now stamp)
  show ?thesis
  proof (cases "applyOp op ms = ms")
    case True
    then have "applyOp op ms = map id ms" by simp
    then show ?thesis by (auto simp: readStep_def intro!: exI[of _ id])
  next
    case False
    then obtain m where m: "findById ms i = Some m" "\<not> isRead m"
      and r: "applyOp op ms = updateOneById ms i
                ((preSaveReadAt True stamp (m\<lparr>isRead := True, readAt := Some now\<rparr>))
                   \<lparr>updatedAt := stamp\<rparr>)"
      using OpDocMarkAsRead
      by (auto simp: doc_markAsRead_def Let_def split: option.splits if_splits)
    let ?d = "m\<lparr>isRead := True, readAt := Some now, updatedAt := stamp\<rparr>"
    have d: "(preSaveReadAt True stamp (m\<lparr>isRead := True, readAt := Some now\<rparr>))
               \<lparr>updatedAt := stamp\<rparr> = ?d"
      by (simp add: preSaveReadAt_def)
    let ?f = "\<lambda>x. if m_id x = i then ?d else x"
    have a: "applyOp op ms = map ?f ms" using r d updateOneById_map[OF assms] by simp
    have mm: "m \<in> set ms" "m_id m = i" using findById_Some_mem[OF m(1)] by auto
    have "\<forall>x \<in> set ms. m_id (?f x) = m_id x \<and> readStep (opTime op) x (?f x)
            \<and> ((isRead x = (readAt x \<noteq> None)) \<longrightarrow> (isRead (?f x) = (readAt (?f x) \<noteq> None)))"
    proof
      fix x assume x: "x \<in> set ms"
      show "m_id (?f x) = m_id x \<and> readStep (opTime op) x (?f x)
            \<and> ((isRead x = (readAt x \<noteq> None)) \<longrightarrow> (isRead (?f x) = (readAt (?f x) \<noteq> None)))"
      proof (cases "m_id x = i")
        case True
        then have "x = m" using same_id_same_message[OF assms mm(1) x] mm(2) by simp
        then show ?thesis using m(2) mm(2) OpDocMarkAsRead by (simp add: readStep_def)
      next
        case False
        then show ?thesis by (simp add: readStep_def)
      qed
    qed
    with a show ?thesis by blast
  qed
next
  case (OpDelete requester i)
  show ?thesis
  proof (cases "applyOp op ms = ms")
    case True
    then have "applyOp op ms = map id ms" by simp
    then show ?thesis by (auto simp: readStep_def intro!: exI[of _ id])
  next
    case False
    then obtain m where "findById ms i = Some m" "applyOp op ms = findByIdAndDelete ms i"
      using OpDelete by (auto simp: deleteMessage_def split: option.splits if_splits)
    then have "applyOp op ms = remove1 m ms"
      using findByIdAndDelete_remove1 by simp
    then show ?thesis by blast
  qed
qed


text \<open>
  Claim C4. Take a collection with unique ids in which \<open>isRead\<close> holds exactly when
  \<open>readAt\<close> is set, and any operation that writes to the collection: the save of a new
  message (with a fresh id), the read-marking update, the instance method \<open>markAsRead\<close>,
  or \<open>deleteMessage\<close>. Afterwards the same invariant and unique ids hold; a message that
  was read is still read with the same \<open>readAt\<close>; a message that has become read has
  \<open>readAt\<close> set to the time of this operation; a message that stays unread has no
  \<open>readAt\<close>; and a message that is new is unread with no \<open>readAt\<close>.
\<close>

theorem read_state_invariant:
  assumes inv: "readStateInv ms"
      and dist: "distinct (map m_id ms)"
      and fresh: "opFresh op ms"
  shows "readStateInv (applyOp op ms) \<and>
         distinct (map m_id (applyOp op ms)) \<and>
         (\<forall>m \<in> set ms. \<forall>m' \<in> set (applyOp op ms). m_id m' = m_id m \<longrightarrow>
            (isRead m \<longrightarrow> isRead m' \<and> readAt m' = readAt m) \<and>
            (\<not> isRead m \<and> isRead m' \<longrightarrow> readAt m' \<noteq> None \<and> readAt m' = opTime op) \<and>
            (\<not> isRead m \<and> \<not> isRead m' \<longrightarrow> readAt m' = None)) \<and>
         (\<forall>m' \<in> set (applyOp op ms). m_id m' \<notin> set (map m_id ms) \<longrightarrow>
            \<not> isRead m' \<and> readAt m' = None)"
proof -
  have inv': "\<And>m. m \<in> set ms \<Longrightarrow> isRead m = (readAt m \<noteq> None)"
    using inv by (simp add: readStateInv_def list_all_iff)
  consider
    (upd) f where "applyOp op ms = map f ms"
      "\<forall>m \<in> set ms. m_id (f m) = m_id m \<and> readStep (opTime op) m (f m)
            \<and> ((isRead m = (readAt m \<noteq> None)) \<longrightarrow> (isRead (f m) = (readAt (f m) \<noteq> None)))"
  | (app) d where "applyOp op ms = ms @ [d]" "\<not> isRead d" "readAt d = None"
      "opFresh op ms \<longrightarrow> m_id d \<notin> set (map m_id ms)"
  | (del) m where "applyOp op ms = remove1 m ms"
    using applyOp_cases[OF dist, of op] by blast
  then show ?thesis
  proof cases
    case upd
    have ids: "map m_id (map f ms) = map m_id ms" using upd(2) by simp
    have a: "readStateInv (map f ms)"
      using upd(2) inv' by (simp add: readStateInv_def list_all_iff)
    have b: "\<And>m m'. m \<in> set ms \<Longrightarrow> m' \<in> set (map f ms) \<Longrightarrow> m_id m' = m_id m \<Longrightarrow> m' = f m"
    proof -
      fix m m' assume m: "m \<in> set ms" and m': "m' \<in> set (map f ms)" and e: "m_id m' = m_id m"
      from m' obtain x where x: "x \<in> set ms" "m' = f x" by auto
      then have "m_id x = m_id m" using upd(2) e by simp
      then have "x = m" using same_id_same_message[OF dist m x(1)] by simp
      then show "m' = f m" using x by simp
    qed
    have c: "\<And>m'. m' \<in> set (map f ms) \<Longrightarrow> m_id m' \<in> set (map m_id ms)"
      using upd(2) by auto
    show ?thesis
      unfolding upd(1)
    proof (intro conjI ballI impI)
      show "readStateInv (map f ms)" by (rule a)
      show "distinct (map m_id (map f ms))" using dist by (simp only: ids)
    next
      fix m m' assume h: "m \<in> set ms" "m' \<in> set (map f ms)" "m_id m' = m_id m"
      then have e: "m' = f m" by (rule b)
      have s: "readStep (opTime op) m (f m)" using upd(2) h(1) by simp
      { assume "isRead m" then show "isRead m'" using s e by (simp add: readStep_def) }
      { assume "isRead m" then show "readAt m' = readAt m" using s e by (simp add: readStep_def) }
      { assume "\<not> isRead m \<and> isRead m'"
        then show "readAt m' \<noteq> None" using s e by (auto simp: readStep_def) }
      { assume "\<not> isRead m \<and> isRead m'"
        then show "readAt m' = opTime op" using s e by (auto simp: readStep_def) }
      { assume "\<not> isRead m \<and> \<not> isRead m'"
        then show "readAt m' = None" using s e inv'[OF h(1)] by (auto simp: readStep_def) }
    next
      fix m' assume "m' \<in> set (map f ms)" "m_id m' \<notin> set (map m_id ms)"
      then have False using c by blast
      then show "\<not> isRead m'" "readAt m' = None" by simp_all
    qed
  next
    case app
    have nid: "m_id d \<notin> set (map m_id ms)" using app(4) fresh by simp
    have k: "\<And>m m'. m \<in> set ms \<Longrightarrow> m' \<in> set (ms @ [d]) \<Longrightarrow> m_id m' = m_id m \<Longrightarrow> m' = m"
    proof -
      fix m m' assume m: "m \<in> set ms" and m': "m' \<in> set (ms @ [d])" and e: "m_id m' = m_id m"
      have "m' \<noteq> d" using nid m e by force
      then have "m' \<in> set ms" using m' by simp
      then show "m' = m" using same_id_same_message[OF dist m _ e] by simp
    qed
    show ?thesis
      unfolding app(1)
    proof (intro conjI ballI impI)
      show "readStateInv (ms @ [d])"
        using inv app(2,3) by (simp add: readStateInv_def)
      show "distinct (map m_id (ms @ [d]))" using dist nid by simp
    next
      fix m m' assume h: "m \<in> set ms" "m' \<in> set (ms @ [d])" "m_id m' = m_id m"
      then have e: "m' = m" by (rule k)
      { assume "isRead m" then show "isRead m'" using e by simp }
      { assume "isRead m" then show "readAt m' = readAt m" using e by simp }
      { assume "\<not> isRead m \<and> isRead m'" then show "readAt m' \<noteq> None" using e by simp }
      { assume "\<not> isRead m \<and> isRead m'" then show "readAt m' = opTime op" using e by simp }
      { assume "\<not> isRead m \<and> \<not> isRead m'"
        then show "readAt m' = None" using e inv'[OF h(1)] by simp }
    next
      fix m' assume "m' \<in> set (ms @ [d])" "m_id m' \<notin> set (map m_id ms)"
      then have "m' = d" by auto
      then show "\<not> isRead m'" "readAt m' = None" using app(2,3) by simp_all
    qed
  next
    case del
    have sub: "set (remove1 m ms) \<subseteq> set ms" by (rule set_remove1_subset)
    show ?thesis
      unfolding del(1)
    proof (intro conjI ballI impI)
      show "readStateInv (remove1 m ms)"
        using inv sub by (auto simp: readStateInv_def list_all_iff)
      show "distinct (map m_id (remove1 m ms))" using dist by (rule distinct_ids_remove1)
    next
      fix x m' assume h: "x \<in> set ms" "m' \<in> set (remove1 m ms)" "m_id m' = m_id x"
      then have e: "m' = x" using same_id_same_message[OF dist h(1) _ h(3)] sub by blast
      { assume "isRead x" then show "isRead m'" using e by simp }
      { assume "isRead x" then show "readAt m' = readAt x" using e by simp }
      { assume "\<not> isRead x \<and> isRead m'" then show "readAt m' \<noteq> None" using e by simp }
      { assume "\<not> isRead x \<and> isRead m'" then show "readAt m' = opTime op" using e by simp }
      { assume "\<not> isRead x \<and> \<not> isRead m'"
        then show "readAt m' = None" using e inv'[OF h(1)] by simp }
    next
      fix m' assume "m' \<in> set (remove1 m ms)" "m_id m' \<notin> set (map m_id ms)"
      then have False using sub by auto
      then show "\<not> isRead m'" "readAt m' = None" by simp_all
    qed
  qed
qed

theorem read_state_invariant_witness:
  "readStateInv [exM1, exM2] \<and> distinct (map m_id [exM1, exM2]) \<and>
   opFresh (OpMarkRead ''T'' ''C'' 2000 2001) [exM1, exM2] \<and>
   opFresh (OpSave 3000 ''m3'' ''T'' ''C'' ''Hi'' ''text'' []) [exM1, exM2] \<and>
   applyOp (OpMarkRead ''T'' ''C'' 2000 2001) [exM1, exM2]
     = [exM1\<lparr>isRead := True, readAt := Some 2000, updatedAt := 2001\<rparr>, exM2] \<and>
   readStateInv (applyOp (OpMarkRead ''T'' ''C'' 2000 2001) [exM1, exM2]) \<and>
   readStateInv (applyOp (OpSave 3000 ''m3'' ''T'' ''C'' ''Hi'' ''text'' []) [exM1, exM2])"
proof -
  have i: "readStateInv [exM1, exM2]"
    by (simp add: readStateInv_def exM1_fields exM2_fields)
  have d: "distinct (map m_id [exM1, exM2])"
    by (simp add: exM1_fields exM2_fields)
  have f1: "opFresh (OpMarkRead ''T'' ''C'' 2000 2001) [exM1, exM2]" by simp
  have f2: "opFresh (OpSave 3000 ''m3'' ''T'' ''C'' ''Hi'' ''text'' []) [exM1, exM2]"
    by (simp add: exM1_fields exM2_fields)
  have r: "applyOp (OpMarkRead ''T'' ''C'' 2000 2001) [exM1, exM2]
             = [exM1\<lparr>isRead := True, readAt := Some 2000, updatedAt := 2001\<rparr>, exM2]"
    by (simp add: ChatMessage_markAsRead_def unreadFrom_def exM1_fields exM2_fields)
  show ?thesis
    using i d f1 f2 r read_state_invariant[OF i d f1] read_state_invariant[OF i d f2]
    by blast
qed

section \<open>Order of the conversation history\<close>

lemma sortCreatedAtDesc_sorted:
  "sorted_wrt (\<lambda>a b. createdAt b \<le> createdAt a) (sortCreatedAtDesc ms)"
proof -
  have "sorted (map (\<lambda>m. - createdAt m) (sort_key (\<lambda>m. - createdAt m) ms))"
    by (rule sorted_sort_key)
  then show ?thesis by (simp add: sortCreatedAtDesc_def sorted_map)
qed

lemma sortCreatedAtDesc_set: "set (sortCreatedAtDesc ms) = set ms"
  by (simp add: sortCreatedAtDesc_def)

lemma sortCreatedAtDesc_length: "length (sortCreatedAtDesc ms) = length ms"
  by (simp add: sortCreatedAtDesc_def)












section \<open>Validation on save\<close>

lemma trim_nonempty_has_visible:
  assumes "trim s \<noteq> []"
  shows "\<exists>c \<in> set (trim s). \<not> isWhiteSpace c"
proof -
  let ?t = "dropWhile isWhiteSpace (rev (dropWhile isWhiteSpace s))"
  have ne: "?t \<noteq> []" using assms by (simp add: trim_def)
  then have "\<not> isWhiteSpace (hd ?t)" by (rule hd_dropWhile)
  moreover have "hd ?t \<in> set (trim s)" using ne by (simp add: trim_def)
  ultimately show ?thesis by blast
qed

lemma trim_empty_iff: "trim s = [] \<longleftrightarrow> (\<forall>c \<in> set s. isWhiteSpace c)"
proof
  assume "trim s = []"
  then have e: "dropWhile isWhiteSpace (rev (dropWhile isWhiteSpace s)) = []"
    by (simp add: trim_def)
  have a: "\<forall>c \<in> set (dropWhile isWhiteSpace s). isWhiteSpace c"
    using e[unfolded dropWhile_eq_Nil_conv] by simp
  have "dropWhile isWhiteSpace s = []"
  proof (rule ccontr)
    assume n: "dropWhile isWhiteSpace s \<noteq> []"
    then have "\<not> isWhiteSpace (hd (dropWhile isWhiteSpace s))" by (rule hd_dropWhile)
    then show False using a n by simp
  qed
  then show "\<forall>c \<in> set s. isWhiteSpace c" by (simp only: dropWhile_eq_Nil_conv)
next
  assume "\<forall>c \<in> set s. isWhiteSpace c"
  then have d: "dropWhile isWhiteSpace s = []" by (simp only: dropWhile_eq_Nil_conv)
  show "trim s = []" unfolding trim_def d by simp
qed

lemma trim_trim_nonempty: "trim s \<noteq> [] \<Longrightarrow> trim (trim s) \<noteq> []"
  using trim_nonempty_has_visible[of s] trim_empty_iff[of "trim s"] by blast

lemma valid_png: "isValidAttachment ''http://x/a.png''"
  by (simp add: isValidAttachment_def afterScheme_def)

text \<open>
  Claim C7, as stated, fails in its last part. An \<open>image\<close> message with a valid
  attachment and an empty body is refused by the schema (\<open>message\<close> is \<open>required\<close> for
  every type) and nothing is stored.
\<close>

theorem save_empty_body_image_counterexample:
  "save 1000 [] (new_ChatMessage 1000 ''m1'' ''T'' ''C'' '''' ''image'' [''http://x/a.png''])
     = Inl ValidationError \<and>
   list_all isValidAttachment [''http://x/a.png''] \<and>
   applyOp (OpSave 1000 ''m1'' ''T'' ''C'' '''' ''image'' [''http://x/a.png'']) [] = []"
  by (simp add: valid_png save_def validateSchema_def new_ChatMessage_def trim_def)

text \<open>
  Claim C7, amended. The save of a new message fails, and stores nothing, exactly when
  the body is empty after trimming or longer than 2000 (for every message type), the
  type is none of \<open>text\<close>, \<open>image\<close>, \<open>file\<close>, some attachment is not an http(s) URL,
  the type is \<open>image\<close> or \<open>file\<close> and there is no attachment, or sender and receiver are
  the same; otherwise it appends the new unread message with the trimmed body.
\<close>

theorem save_rejects_exactly_invalid:
  "(violatesConstraints sender receiver msg mtype atts \<longrightarrow>
      (\<exists>e. save now ms (new_ChatMessage now newId sender receiver msg mtype atts) = Inl e) \<and>
      applyOp (OpSave now newId sender receiver msg mtype atts) ms = ms) \<and>
   (\<not> violatesConstraints sender receiver msg mtype atts \<longrightarrow>
      save now ms (new_ChatMessage now newId sender receiver msg mtype atts) =
        Inr (ms @ [new_ChatMessage now newId sender receiver msg mtype atts],
             new_ChatMessage now newId sender receiver msg mtype atts) \<and>
      applyOp (OpSave now newId sender receiver msg mtype atts) ms =
        ms @ [new_ChatMessage now newId sender receiver msg mtype atts])"
proof (cases "violatesConstraints sender receiver msg mtype atts")
  case True
  then have "\<exists>e. save now ms (new_ChatMessage now newId sender receiver msg mtype atts) = Inl e"
    by (auto simp: violatesConstraints_def save_def validateSchema_def preSaveContent_def
          new_ChatMessage_def Let_def split: option.splits)
  then show ?thesis using True by auto
next
  case False
  then have t: "trim msg \<noteq> []" "trim (trim msg) \<noteq> []"
    using trim_trim_nonempty by (auto simp: violatesConstraints_def)
  have v: "validateSchema (new_ChatMessage now newId sender receiver msg mtype atts)"
    using False by (auto simp: violatesConstraints_def validateSchema_def new_ChatMessage_def)
  have p: "preSaveContent (new_ChatMessage now newId sender receiver msg mtype atts) = None"
    using False t by (auto simp: violatesConstraints_def preSaveContent_def new_ChatMessage_def)
  have r: "preSaveReadAt False now (new_ChatMessage now newId sender receiver msg mtype atts)
             = new_ChatMessage now newId sender receiver msg mtype atts"
    by (simp add: preSaveReadAt_def)
  have "save now ms (new_ChatMessage now newId sender receiver msg mtype atts) =
        Inr (ms @ [new_ChatMessage now newId sender receiver msg mtype atts],
             new_ChatMessage now newId sender receiver msg mtype atts)"
    using v p r by (simp add: save_def Let_def)
  then show ?thesis using False by simp
qed

theorem save_rejects_exactly_invalid_witness:
  "violatesConstraints ''T'' ''C'' '''' ''image'' [''http://x/a.png''] \<and>
   applyOp (OpSave 1000 ''m1'' ''T'' ''C'' '''' ''image'' [''http://x/a.png'']) [] = [] \<and>
   \<not> violatesConstraints ''T'' ''C'' ''Hi'' ''text'' [] \<and>
   save 1000 [] (new_ChatMessage 1000 ''m1'' ''T'' ''C'' ''Hi'' ''text'' []) = Inr ([exM1], exM1)"
proof -
  have a: "violatesConstraints ''T'' ''C'' '''' ''image'' [''http://x/a.png'']"
    by (simp add: violatesConstraints_def trim_def)
  have b: "\<not> violatesConstraints ''T'' ''C'' ''Hi'' ''text'' []"
    by (simp add: violatesConstraints_def trim_Hi)
  have c: "new_ChatMessage 1000 ''m1'' ''T'' ''C'' ''Hi'' ''text'' [] = exM1"
    by (simp add: new_ChatMessage_def trim_Hi exM1_def)
  show ?thesis
    using a b c
      save_rejects_exactly_invalid[of "''T''" "''C''" "''''" "''image''" "[''http://x/a.png'']" 1000 "[]" "''m1''"]
      save_rejects_exactly_invalid[of "''T''" "''C''" "''Hi''" "''text''" "[]" 1000 "[]" "''m1''"]
    by simp
qed

section \<open>Recent conversations\<close>

text \<open>First the pipeline as the author meant it, with the user's id given as an ObjectId:
  the groups are the distinct partners, each with the newest message of the pair and the
  number of unread messages from the partner; the result is sorted by the time of that
  message, newest first, has at most \<open>limit\<close> entries, lists a partner at most once and,
  when the limit allows, every partner that has a user document.\<close>

lemma groupStage_keys: "fst ` set (groupStage v ds) \<subseteq> partnerOf v ` set ds"
proof (induction v ds rule: groupStage.induct)
  case (1 v)
  then show ?case by simp
next
  case (2 v m ms)
  have "partnerOf v ` set (filter (\<lambda>d. partnerOf v d \<noteq> partnerOf v m) ms) \<subseteq> partnerOf v ` set ms"
    by auto
  with 2 show ?case by auto
qed

lemma groupStage_keys_all: "partnerOf v ` set ds \<subseteq> fst ` set (groupStage v ds)"
proof (induction v ds rule: groupStage.induct)
  case (1 v)
  then show ?case by simp
next
  case (2 v m ms)
  show ?case
  proof
    fix k assume "k \<in> partnerOf v ` set (m # ms)"
    then obtain d where d: "d \<in> set (m # ms)" "k = partnerOf v d" by auto
    show "k \<in> fst ` set (groupStage v (m # ms))"
    proof (cases "k = partnerOf v m")
      case True
      then show ?thesis by simp
    next
      case False
      then have "d \<in> set (filter (\<lambda>d. partnerOf v d \<noteq> partnerOf v m) ms)" using d by auto
      then have "k \<in> partnerOf v ` set (filter (\<lambda>d. partnerOf v d \<noteq> partnerOf v m) ms)"
        using d(2) by blast
      then show ?thesis using 2 by auto
    qed
  qed
qed

lemma groupStage_distinct: "distinct (map fst (groupStage v ds))"
proof (induction v ds rule: groupStage.induct)
  case (1 v)
  then show ?case by simp
next
  case (2 v m ms)
  have "partnerOf v m \<notin> fst ` set (groupStage v (filter (\<lambda>d. partnerOf v d \<noteq> partnerOf v m) ms))"
    using groupStage_keys[of v "filter (\<lambda>d. partnerOf v d \<noteq> partnerOf v m) ms"] by auto
  with 2 show ?case by simp
qed

lemma groupStage_entry:
  "(k, lastM, n) \<in> set (groupStage v ds) \<Longrightarrow>
     (\<exists>rest. filter (\<lambda>d. partnerOf v d = k) ds = lastM # rest) \<and>
     n = length (filter (\<lambda>d. partnerOf v d = k \<and> countsUnread v d) ds)"
proof (induction v ds rule: groupStage.induct)
  case (1 v)
  then show ?case by simp
next
  case (2 v m ms)
  let ?k0 = "partnerOf v m"
  let ?rest = "filter (\<lambda>d. partnerOf v d \<noteq> ?k0) ms"
  from "2.prems" consider
    (head) "k = ?k0" "lastM = m"
      "n = length (filter (\<lambda>d. partnerOf v d = ?k0 \<and> countsUnread v d) (m # ms))"
  | (tail) "(k, lastM, n) \<in> set (groupStage v ?rest)"
    by auto
  then show ?case
  proof cases
    case head
    then show ?thesis by simp
  next
    case tail
    have "k \<in> partnerOf v ` set ?rest"
      using tail groupStage_keys[of v ?rest] by force
    then have ne: "k \<noteq> ?k0" by auto
    have f1: "filter (\<lambda>d. partnerOf v d = k) ?rest = filter (\<lambda>d. partnerOf v d = k) ms"
      using ne by (auto simp: filter_filter intro: filter_cong)
    have f2: "filter (\<lambda>d. partnerOf v d = k \<and> countsUnread v d) ?rest
              = filter (\<lambda>d. partnerOf v d = k \<and> countsUnread v d) ms"
      using ne by (auto simp: filter_filter intro: filter_cong)
    show ?thesis using "2.IH"[OF tail] ne f1 f2 by auto
  qed
qed

lemma sortCreatedAtDesc_filter_length:
  "length (filter P (sortCreatedAtDesc xs)) = length (filter P xs)"
  by (simp add: sortCreatedAtDesc_def filter_sort)

lemma matchStage_cast:
  "matchStage (ObjectIdValue uid) ms = filter (\<lambda>m. senderId m = uid \<or> receiverId m = uid) ms"
  by (simp add: matchStage_def)

lemma unread_of_partner:
  "((senderId d = uid \<or> receiverId d = uid) \<and> partnerOf (ObjectIdValue uid) d = p \<and>
      countsUnread (ObjectIdValue uid) d) = unreadFrom p uid d"
  by (auto simp: partnerOf_def countsUnread_def unreadFrom_def)

lemma pipeline_member:
  assumes "c \<in> set (conversationsPipeline v limit us ms)"
  shows "\<exists>k lastM n u. (k, lastM, n) \<in> set (groupStage v (sortCreatedAtDesc (matchStage v ms))) \<and>
           u \<in> set us \<and> u_id u = k \<and>
           c = \<lparr> partnerId = k, partnerName = firstName u @ '' '' @ lastName u,
                 partnerProfilePicture = profilePicture u, partnerRole = role u,
                 lastMessage = message lastM, lastMessageType = messageType lastM,
                 lastMessageTime = createdAt lastM, unreadCount = n,
                 isLastMessageFromMe = (ObjectIdValue (senderId lastM) = v) \<rparr>"
proof -
  from assms have "c \<in> set (sort_key (\<lambda>c. - lastMessageTime c)
          (concat (map (lookupUnwindProject v us)
             (groupStage v (sortCreatedAtDesc (matchStage v ms))))))"
    unfolding conversationsPipeline_def by (rule in_set_takeD)
  then obtain g where g: "g \<in> set (groupStage v (sortCreatedAtDesc (matchStage v ms)))"
      "c \<in> set (lookupUnwindProject v us g)"
    by auto
  obtain k lastM n where gg: "g = (k, lastM, n)" by (cases g) auto
  from g(2) gg obtain u where "u \<in> set us" "u_id u = k"
     "c = \<lparr> partnerId = k, partnerName = firstName u @ '' '' @ lastName u,
                 partnerProfilePicture = profilePicture u, partnerRole = role u,
                 lastMessage = message lastM, lastMessageType = messageType lastM,
                 lastMessageTime = createdAt lastM, unreadCount = n,
                 isLastMessageFromMe = (ObjectIdValue (senderId lastM) = v) \<rparr>"
    by (auto simp: lookupUnwindProject_def)
  with g(1) gg show ?thesis by blast
qed

text \<open>What the pipeline computes when it is given the user's id as an ObjectId.\<close>

lemma conversationsPipeline_with_cast:
  assumes "c \<in> set (conversationsPipeline (ObjectIdValue uid) limit us ms)"
  shows "(\<exists>m \<in> set ms. (senderId m = uid \<or> receiverId m = uid) \<and>
            partnerOf (ObjectIdValue uid) m = partnerId c \<and>
            lastMessage c = message m \<and> lastMessageType c = messageType m \<and>
            lastMessageTime c = createdAt m \<and> isLastMessageFromMe c = (senderId m = uid) \<and>
            (\<forall>d \<in> set ms. (senderId d = uid \<or> receiverId d = uid) \<and>
                 partnerOf (ObjectIdValue uid) d = partnerId c \<longrightarrow> createdAt d \<le> createdAt m)) \<and>
         unreadCount c = length (filter (unreadFrom (partnerId c) uid) ms) \<and>
         (\<exists>u \<in> set us. u_id u = partnerId c \<and> partnerName c = firstName u @ '' '' @ lastName u)"
proof -
  let ?v = "ObjectIdValue uid"
  let ?ds = "sortCreatedAtDesc (matchStage ?v ms)"
  from pipeline_member[OF assms] obtain k lastM n u where
    g: "(k, lastM, n) \<in> set (groupStage ?v ?ds)" and u: "u \<in> set us" "u_id u = k" and
    c: "c = \<lparr> partnerId = k, partnerName = firstName u @ '' '' @ lastName u,
                 partnerProfilePicture = profilePicture u, partnerRole = role u,
                 lastMessage = message lastM, lastMessageType = messageType lastM,
                 lastMessageTime = createdAt lastM, unreadCount = n,
                 isLastMessageFromMe = (ObjectIdValue (senderId lastM) = ?v) \<rparr>"
    by blast
  from groupStage_entry[OF g] obtain rest where
    f: "filter (\<lambda>d. partnerOf ?v d = k) ?ds = lastM # rest" and
    n: "n = length (filter (\<lambda>d. partnerOf ?v d = k \<and> countsUnread ?v d) ?ds)"
    by blast
  have ds_set: "set ?ds = {m \<in> set ms. senderId m = uid \<or> receiverId m = uid}"
    by (auto simp: sortCreatedAtDesc_set matchStage_cast)
  have "lastM \<in> set (filter (\<lambda>d. partnerOf ?v d = k) ?ds)" using f by simp
  then have lm: "lastM \<in> set ms" "senderId lastM = uid \<or> receiverId lastM = uid"
      "partnerOf ?v lastM = k"
    using ds_set by auto
  have "sorted_wrt (\<lambda>a b. createdAt b \<le> createdAt a) (filter (\<lambda>d. partnerOf ?v d = k) ?ds)"
    by (intro sorted_wrt_filter sortCreatedAtDesc_sorted)
  then have mx: "\<forall>d \<in> set rest. createdAt d \<le> createdAt lastM" using f by simp
  have newest: "\<forall>d \<in> set ms. (senderId d = uid \<or> receiverId d = uid) \<and> partnerOf ?v d = k
                    \<longrightarrow> createdAt d \<le> createdAt lastM"
  proof (intro ballI impI)
    fix d assume "d \<in> set ms" "(senderId d = uid \<or> receiverId d = uid) \<and> partnerOf ?v d = k"
    then have "d \<in> set (filter (\<lambda>d. partnerOf ?v d = k) ?ds)" using ds_set by auto
    then have "d = lastM \<or> d \<in> set rest" using f by simp
    then show "createdAt d \<le> createdAt lastM" using mx by auto
  qed
  have "n = length (filter (\<lambda>d. partnerOf ?v d = k \<and> countsUnread ?v d) (matchStage ?v ms))"
    using n by (simp add: sortCreatedAtDesc_filter_length)
  also have "\<dots> = length (filter (\<lambda>d. (senderId d = uid \<or> receiverId d = uid) \<and>
                         partnerOf ?v d = k \<and> countsUnread ?v d) ms)"
    by (simp add: matchStage_cast conj_commute conj_left_commute)
  also have "\<dots> = length (filter (unreadFrom k uid) ms)"
    by (simp only: unread_of_partner)
  finally have cnt: "n = length (filter (unreadFrom k uid) ms)" .
  show ?thesis
    using lm newest cnt u c by auto
qed

lemma conversationsPipeline_sorted:
  "sorted_wrt (\<lambda>a b. lastMessageTime b \<le> lastMessageTime a) (conversationsPipeline v limit us ms) \<and>
   length (conversationsPipeline v limit us ms) \<le> limit"
proof -
  let ?cs = "concat (map (lookupUnwindProject v us) (groupStage v (sortCreatedAtDesc (matchStage v ms))))"
  have "sorted (map (\<lambda>c. - lastMessageTime c) (sort_key (\<lambda>c. - lastMessageTime c) ?cs))"
    by (rule sorted_sort_key)
  then have "sorted_wrt (\<lambda>a b. lastMessageTime b \<le> lastMessageTime a)
               (sort_key (\<lambda>c. - lastMessageTime c) ?cs)"
    by (simp add: sorted_map)
  then show ?thesis
    unfolding conversationsPipeline_def by (simp add: sorted_wrt_take)
qed

lemma unique_user: "distinct (map u_id us) \<Longrightarrow> length (filter (\<lambda>u. u_id u = k) us) \<le> 1"
proof (induction us)
  case Nil
  then show ?case by simp
next
  case (Cons a us)
  have "u_id a = k \<Longrightarrow> filter (\<lambda>u. u_id u = k) us = []"
    using Cons.prems by (auto simp: filter_empty_conv) (metis imageI)
  with Cons show ?case by auto
qed

lemma lookupUnwindProject_partner:
  "c \<in> set (lookupUnwindProject v us g) \<Longrightarrow> partnerId c = fst g"
  by (cases g) (auto simp: lookupUnwindProject_def)

lemma lookup_distinct:
  assumes "distinct (map u_id us)" "distinct (map fst gs)"
  shows "distinct (map partnerId (concat (map (lookupUnwindProject v us) gs)))"
  using assms(2)
proof (induction gs)
  case Nil
  then show ?case by simp
next
  case (Cons g gs)
  have one: "length (lookupUnwindProject v us g) \<le> 1"
    using unique_user[OF assms(1), of "fst g"] by (cases g) (simp add: lookupUnwindProject_def)
  then have d1: "distinct (map partnerId (lookupUnwindProject v us g))"
    by (cases "lookupUnwindProject v us g") auto
  have d2: "distinct (map partnerId (concat (map (lookupUnwindProject v us) gs)))"
    using Cons by simp
  have disj: "set (map partnerId (lookupUnwindProject v us g)) \<inter>
              set (map partnerId (concat (map (lookupUnwindProject v us) gs))) = {}"
  proof (rule ccontr)
    assume "\<not> ?thesis"
    then obtain c c' g' where "c \<in> set (lookupUnwindProject v us g)" "g' \<in> set gs"
        "c' \<in> set (lookupUnwindProject v us g')" "partnerId c = partnerId c'"
      by auto
    then have "fst g = fst g'" "g' \<in> set gs"
      using lookupUnwindProject_partner by metis+
    then show False using Cons.prems by force
  qed
  show ?case using d1 d2 disj by simp
qed

lemma conversationsPipeline_distinct:
  assumes "distinct (map u_id us)"
  shows "distinct (map partnerId (conversationsPipeline v limit us ms))"
proof -
  let ?cs = "concat (map (lookupUnwindProject v us) (groupStage v (sortCreatedAtDesc (matchStage v ms))))"
  have d: "distinct (map partnerId ?cs)"
    by (rule lookup_distinct[OF assms groupStage_distinct])
  then have "distinct ?cs" "inj_on partnerId (set ?cs)" by (simp_all add: distinct_map)
  then have "distinct (map partnerId (sort_key (\<lambda>c. - lastMessageTime c) ?cs))"
    by (simp add: distinct_map)
  then show ?thesis
    unfolding conversationsPipeline_def by (simp only: take_map[symmetric] distinct_take)
qed

lemma groupStage_length: "length (groupStage v ds) \<le> length ds"
proof (induction v ds rule: groupStage.induct)
  case (1 v)
  then show ?case by simp
next
  case (2 v m ms)
  have "length (filter (\<lambda>d. partnerOf v d \<noteq> partnerOf v m) ms) \<le> length ms" by simp
  with 2 show ?case by (simp add: le_trans)
qed

lemma lookup_length:
  assumes "distinct (map u_id us)"
  shows "length (concat (map (lookupUnwindProject v us) gs)) \<le> length gs"
proof (induction gs)
  case Nil
  then show ?case by simp
next
  case (Cons g gs)
  have "length (lookupUnwindProject v us g) \<le> 1"
    using unique_user[OF assms, of "fst g"] by (cases g) (simp add: lookupUnwindProject_def)
  with Cons show ?case by simp
qed

lemma conversationsPipeline_complete:
  assumes du: "distinct (map u_id us)"
      and lim: "length ms \<le> limit"
      and m: "m \<in> set ms" "senderId m = uid \<or> receiverId m = uid"
      and u: "u \<in> set us" "u_id u = partnerOf (ObjectIdValue uid) m"
  shows "\<exists>c \<in> set (conversationsPipeline (ObjectIdValue uid) limit us ms).
           partnerId c = partnerOf (ObjectIdValue uid) m"
proof -
  let ?v = "ObjectIdValue uid"
  let ?ds = "sortCreatedAtDesc (matchStage ?v ms)"
  let ?gs = "groupStage ?v ?ds"
  let ?cs = "concat (map (lookupUnwindProject ?v us) ?gs)"
  have "m \<in> set ?ds" using m by (simp add: sortCreatedAtDesc_set matchStage_cast)
  then have "partnerOf ?v m \<in> fst ` set ?gs" using groupStage_keys_all[of ?v ?ds] by blast
  then obtain lastM n where g: "(partnerOf ?v m, lastM, n) \<in> set ?gs" by force
  have "lookupUnwindProject ?v us (partnerOf ?v m, lastM, n) \<noteq> []"
    using u by (auto simp: lookupUnwindProject_def filter_empty_conv)
  then obtain c where c: "c \<in> set (lookupUnwindProject ?v us (partnerOf ?v m, lastM, n))"
    by (cases "lookupUnwindProject ?v us (partnerOf ?v m, lastM, n)") auto
  then have p: "partnerId c = partnerOf ?v m" using lookupUnwindProject_partner by fastforce
  have cin: "c \<in> set ?cs" using g c by auto
  have "length ?ds \<le> length ms"
    by (simp add: sortCreatedAtDesc_length matchStage_def)
  then have "length ?cs \<le> limit"
    using lookup_length[OF du, of ?v ?gs] groupStage_length[of ?v ?ds] lim by linarith
  then have "conversationsPipeline ?v limit us ms = sort_key (\<lambda>c. - lastMessageTime c) ?cs"
    unfolding conversationsPipeline_def by simp
  then show ?thesis using cin p by auto
qed

lemma exPipeline:
  "conversationsPipeline (ObjectIdValue ''T'') 10 [exT, exC, exU] [exM1, exM2, exM3] =
     [\<lparr> partnerId = ''C'', partnerName = ''Carl Client'', partnerProfilePicture = None,
        partnerRole = USER, lastMessage = ''Later'', lastMessageType = ''text'',
        lastMessageTime = 2000, unreadCount = 1, isLastMessageFromMe = True \<rparr>]"
  by (simp add: conversationsPipeline_def matchStage_def sortCreatedAtDesc_def partnerOf_def
        countsUnread_def lookupUnwindProject_def exM1_def exM2_def exM3_def exT_def exC_def exU_def)

text \<open>Then the pipeline as \<open>getConversations\<close> runs it, with the string \<open>req.user.id\<close>.\<close>

lemma matchStage_string: "matchStage (StringValue s) ms = []"
  by (simp add: matchStage_def)

lemma conversationsPipeline_string: "conversationsPipeline (StringValue s) limit us ms = []"
  by (simp add: conversationsPipeline_def matchStage_string sortCreatedAtDesc_def)

lemma getConversations_matches_nothing:
  "getConversations (Some currentUserId) limit us ms = (200, ConversationsBody [])"
  by (simp add: getConversations_def conversationsPipeline_string)

text \<open>
  Claim C8. The controller answers 200 with an empty list of conversations for every
  user and every collection: the \<open>$match\<close> stage compares the stored ObjectIds with the
  string \<open>req.user.id\<close> and selects no document. For the trainer \<open>T\<close>, who has
  exchanged three messages with the client \<open>C\<close>, the claim asks for one summary (partner
  \<open>C\<close>, last message \<open>Later\<close>, one unread message), which is what the same pipeline
  returns when it is given the id as an ObjectId; \<open>getConversations\<close> returns none.
\<close>

theorem getConversations_failing_input:
  "getConversations (Some ''T'') 10 [exT, exC, exU] [exM1, exM2, exM3] = (200, ConversationsBody []) \<and>
   inConversation ''T'' ''C'' exM1 \<and>
   conversationsPipeline (ObjectIdValue ''T'') 10 [exT, exC, exU] [exM1, exM2, exM3] =
     [\<lparr> partnerId = ''C'', partnerName = ''Carl Client'', partnerProfilePicture = None,
        partnerRole = USER, lastMessage = ''Later'', lastMessageType = ''text'',
        lastMessageTime = 2000, unreadCount = 1, isLastMessageFromMe = True \<rparr>]"
  using exPipeline getConversations_matches_nothing
  by (simp add: inConversation_def exM1_fields)

end
